theory Spec2Isabelle
  imports Complex_Main "HOL-Library.Monad_Syntax" "HOL-Library.Multiset"
begin

section \<open>Strings\<close>

text \<open>
  A source string is modelled as a \<^typ>\<open>string\<close>: a list of 8-bit code units. The
  character tests below are those of ECMAScript restricted to code units below 256.
\<close>

definition isSpace :: "char \<Rightarrow> bool" where
  \<comment> \<open>\<open>\s\<close> and \<open>trim\<close>: TAB, LF, VT, FF, CR, SP, NBSP\<close>
  "isSpace c = ((of_char c :: nat) \<in> {9, 10, 11, 12, 13, 32, 160})"

definition isWord :: "char \<Rightarrow> bool" where
  \<comment> \<open>\<open>\w\<close>: \<open>[A-Za-z0-9_]\<close>\<close>
  "isWord c = (let n = (of_char c :: nat) in
     (48 \<le> n \<and> n \<le> 57) \<or> (65 \<le> n \<and> n \<le> 90) \<or> n = 95 \<or> (97 \<le> n \<and> n \<le> 122))"

definition isLineTerminator :: "char \<Rightarrow> bool" where
  "isLineTerminator c = ((of_char c :: nat) \<in> {10, 13})"

section \<open>Regular expressions\<close>

text \<open>
  The source works by regular expressions throughout. Each regex literal of the source
  is written as a term of \<open>regex\<close>, constructor by constructor, and matched by a
  backtracking matcher that returns every way to match at a position in ECMAScript's
  order of preference; the head of that list is the match an engine reports.
  \<open>Bol\<close> and \<open>Eol\<close> are \<open>^\<close> and \<open>$\<close> without the \<open>m\<close> flag, \<open>BolM\<close> is \<open>^\<close>
  with it, \<open>WordB\<close> is \<open>\b\<close>, \<open>LazyStar\<close> is \<open>*?\<close> and \<open>Grp i\<close> is the \<open>i\<close>-th pair of
  capturing parentheses. None of the regexes below has a capture group under \<open>*\<close> or
  \<open>+\<close>, and every match starts without captures, so the reset of captures at each
  iteration of a repetition is not modelled.
\<close>

datatype citem = Ch char | Rng char char | ClsW | ClsS | ClsNS

fun inItem :: "char \<Rightarrow> citem \<Rightarrow> bool" where
  "inItem c (Ch d) = (c = d)"
| "inItem c (Rng a b) = ((of_char a :: nat) \<le> of_char c \<and> (of_char c :: nat) \<le> of_char b)"
| "inItem c ClsW = isWord c"
| "inItem c ClsS = isSpace c"
| "inItem c ClsNS = (\<not> isSpace c)"

datatype regex =
    Lit string
  | Cls "citem list"
  | NCls "citem list"
  | Dot
  | Seq regex regex
  | Alt regex regex
  | Star regex
  | LazyStar regex
  | Opt regex
  | Grp nat regex
  | Bol
  | BolM
  | Eol
  | WordB

definition Plus :: "regex \<Rightarrow> regex" where
  "Plus r = Seq r (Star r)"

fun seqs :: "regex list \<Rightarrow> regex" where
  "seqs [] = Lit []"
| "seqs [r] = r"
| "seqs (r # rs) = Seq r (seqs rs)"

text \<open>
  A matcher state: the character before the position (if any), the input from the
  position on, and the captures made so far (the latest binding of a group first).
\<close>

type_synonym mstate = "char option \<times> string \<times> (nat \<times> string) list"

definition rest :: "mstate \<Rightarrow> string" where
  "rest st = fst (snd st)"

definition shorter :: "mstate \<Rightarrow> mstate \<Rightarrow> bool" where
  "shorter st' st = (length (rest st') < length (rest st))"

text \<open>
  Repetition. An iteration that consumes nothing is not continued (ECMAScript's
  RepeatMatcher), so at most \<open>length (rest st)\<close> iterations are possible and the
  counter never cuts a match short.
\<close>

fun starIter :: "(mstate \<Rightarrow> mstate list) \<Rightarrow> nat \<Rightarrow> mstate \<Rightarrow> mstate list" where
  "starIter f 0 st = [st]"
| "starIter f (Suc n) st =
     concat (map (\<lambda>st'. if shorter st' st then starIter f n st' else []) (f st)) @ [st]"

fun lazyIter :: "(mstate \<Rightarrow> mstate list) \<Rightarrow> nat \<Rightarrow> mstate \<Rightarrow> mstate list" where
  "lazyIter f 0 st = [st]"
| "lazyIter f (Suc n) st =
     st # concat (map (\<lambda>st'. if shorter st' st then lazyIter f n st' else []) (f st))"

definition oneChar :: "(char \<Rightarrow> bool) \<Rightarrow> mstate \<Rightarrow> mstate list" where
  "oneChar P st = (case st of (p, s, c) \<Rightarrow>
     (case s of [] \<Rightarrow> [] | x # xs \<Rightarrow> if P x then [(Some x, xs, c)] else []))"

definition wordBefore :: "mstate \<Rightarrow> bool" where
  "wordBefore st = (case fst st of None \<Rightarrow> False | Some x \<Rightarrow> isWord x)"

definition wordAfter :: "mstate \<Rightarrow> bool" where
  "wordAfter st = (case rest st of [] \<Rightarrow> False | x # xs \<Rightarrow> isWord x)"

primrec ms :: "regex \<Rightarrow> mstate \<Rightarrow> mstate list" where
  "ms (Lit l) st = (case st of (p, s, c) \<Rightarrow>
     if l = [] then [st]
     else if take (length l) s = l then [(Some (last l), drop (length l) s, c)] else [])"
| "ms (Cls cs) st = oneChar (\<lambda>x. list_ex (inItem x) cs) st"
| "ms (NCls cs) st = oneChar (\<lambda>x. \<not> list_ex (inItem x) cs) st"
| "ms Dot st = oneChar (\<lambda>x. \<not> isLineTerminator x) st"
| "ms (Seq a b) st = concat (map (ms b) (ms a st))"
| "ms (Alt a b) st = ms a st @ ms b st"
| "ms (Star r) st = starIter (ms r) (length (rest st)) st"
| "ms (LazyStar r) st = lazyIter (ms r) (length (rest st)) st"
| "ms (Opt r) st = filter (\<lambda>st'. shorter st' st) (ms r st) @ [st]"
| "ms (Grp i r) st =
     map (\<lambda>st'. case st' of (p, s, c) \<Rightarrow>
            (p, s, (i, take (length (rest st) - length s) (rest st)) # c)) (ms r st)"
| "ms Bol st = (if fst st = None then [st] else [])"
| "ms BolM st = (case fst st of None \<Rightarrow> [st] | Some x \<Rightarrow> if isLineTerminator x then [st] else [])"
| "ms Eol st = (if rest st = [] then [st] else [])"
| "ms WordB st = (if wordBefore st = wordAfter st then [] else [st])"

text \<open>
  A match as \<open>exec\<close> reports it: its index, the matched text, the captures, and the
  matcher state at the end of the match (where a global search goes on).
\<close>

record rmatch =
  index :: nat
  matched :: string
  captures :: "(nat \<times> string) list"
  after :: "char option \<times> string"

definition capture :: "rmatch \<Rightarrow> nat \<Rightarrow> string option" where
  \<comment> \<open>\<open>match[i]\<close>: \<open>None\<close> is \<open>undefined\<close>\<close>
  "capture m i = map_of (captures m) i"

text \<open>The first match at or after a position: \<open>p\<close> is the character before it and
  \<open>i\<close> its index.\<close>

fun search :: "regex \<Rightarrow> char option \<Rightarrow> string \<Rightarrow> nat \<Rightarrow> rmatch option" where
  "search r p s i =
     (case ms r (p, s, []) of
        (p', s', c) # _ \<Rightarrow>
          Some \<lparr>index = i, matched = take (length s - length s') s, captures = c, after = (p', s')\<rparr>
      | [] \<Rightarrow> (case s of [] \<Rightarrow> None | x # xs \<Rightarrow> search r (Some x) xs (Suc i)))"

declare search.simps [simp del]

definition firstMatch :: "regex \<Rightarrow> string \<Rightarrow> rmatch option" where
  \<comment> \<open>\<open>str.match(re)\<close> and \<open>re.exec(str)\<close> for a regex without the \<open>g\<close> flag\<close>
  "firstMatch r s = search r None s 0"

definition test :: "regex \<Rightarrow> string \<Rightarrow> bool" where
  \<comment> \<open>\<open>re.test(str)\<close> on a fresh regex object\<close>
  "test r s = (firstMatch r s \<noteq> None)"

subsection \<open>The matcher never moves backwards\<close>

lemma starIter_le:
  assumes "\<And>st st'. st' \<in> set (f st) \<Longrightarrow> length (rest st') \<le> length (rest st)"
  shows "st' \<in> set (starIter f n st) \<Longrightarrow> length (rest st') \<le> length (rest st)"
proof (induction n arbitrary: st)
  case 0
  then show ?case by simp
next
  case (Suc n)
  from Suc.prems consider "st' = st"
    | x where "x \<in> set (f st)" "st' \<in> set (starIter f n x)"
    by (auto split: if_splits)
  then show ?case
  proof cases
    case 1
    then show ?thesis by simp
  next
    case 2
    then have "length (rest st') \<le> length (rest x)" using Suc.IH by blast
    also have "\<dots> \<le> length (rest st)" using assms 2 by blast
    finally show ?thesis .
  qed
qed

lemma lazyIter_le:
  assumes "\<And>st st'. st' \<in> set (f st) \<Longrightarrow> length (rest st') \<le> length (rest st)"
  shows "st' \<in> set (lazyIter f n st) \<Longrightarrow> length (rest st') \<le> length (rest st)"
proof (induction n arbitrary: st)
  case 0
  then show ?case by simp
next
  case (Suc n)
  from Suc.prems consider "st' = st"
    | x where "x \<in> set (f st)" "st' \<in> set (lazyIter f n x)"
    by (auto split: if_splits)
  then show ?case
  proof cases
    case 1
    then show ?thesis by simp
  next
    case 2
    then have "length (rest st') \<le> length (rest x)" using Suc.IH by blast
    also have "\<dots> \<le> length (rest st)" using assms 2 by blast
    finally show ?thesis .
  qed
qed

lemma oneChar_less: "st' \<in> set (oneChar P st) \<Longrightarrow> length (rest st') < length (rest st)"
  by (auto simp: oneChar_def rest_def split: prod.splits list.splits if_splits)

lemma ms_le: "st' \<in> set (ms r st) \<Longrightarrow> length (rest st') \<le> length (rest st)"
proof (induction r arbitrary: st st')
  case (Lit l)
  then show ?case by (auto simp: rest_def split: prod.splits if_splits)
next
  case (Seq a b)
  then obtain x where "x \<in> set (ms a st)" "st' \<in> set (ms b x)" by auto
  then show ?case using Seq.IH by (meson le_trans)
next
  case (Star r)
  then show ?case using starIter_le[of "ms r"] by auto
next
  case (LazyStar r)
  then show ?case using lazyIter_le[of "ms r"] by auto
next
  case (Grp i r)
  from Grp.prems obtain x where x: "x \<in> set (ms r st)" and "rest st' = rest x"
    by (auto simp: rest_def split: prod.splits)
  then show ?case using Grp.IH[OF x] by simp
qed (auto dest: oneChar_less less_imp_le split: option.splits if_splits)

lemma ms_hd_le: "ms r (p, s, c0) = (p', s', c) # sts \<Longrightarrow> length s' \<le> length s"
  using ms_le[of "(p', s', c)" r "(p, s, c0)"] by (simp add: rest_def)

lemma search_after:
  "search r p s i = Some m \<Longrightarrow>
     length (snd (after m)) \<le> length s \<and> (matched m \<noteq> [] \<longrightarrow> length (snd (after m)) < length s)"
proof (induction s arbitrary: p i)
  case Nil
  then show ?case
    by (auto simp: search.simps[of r p "[]"] split: list.splits dest: ms_hd_le)
next
  case (Cons x xs)
  show ?case
  proof (cases "ms r (p, x # xs, [])")
    case Nil
    then have "search r (Some x) xs (Suc i) = Some m"
      using Cons.prems by (simp add: search.simps[of r p "x # xs"])
    from Cons.IH[OF this] show ?thesis by auto
  next
    case (Cons st sts)
    obtain p' s' c where st: "st = (p', s', c)" by (cases st)
    have "length s' \<le> length (x # xs)" using Cons st ms_hd_le by blast
    moreover have "m = \<lparr>index = i, matched = take (length (x # xs) - length s') (x # xs), captures = c, after = (p', s')\<rparr>"
      using Cons.prems Cons st by (simp add: search.simps[of r p "x # xs"])
    ultimately show ?thesis by auto
  qed
qed

subsection \<open>Global matching\<close>

text \<open>
  \<open>while ((match = re.exec(content)) !== null)\<close> with a \<open>g\<close> regex: every \<open>exec\<close>
  searches from \<open>lastIndex\<close>, which it then sets to the end of the match it found. After
  an empty match \<open>lastIndex\<close> stays where it is and the next \<open>exec\<close> finds the same
  match again: the loop never ends, which is the value \<open>None\<close>.
\<close>

function execLoop :: "regex \<Rightarrow> char option \<Rightarrow> string \<Rightarrow> nat \<Rightarrow> rmatch list option" where
  "execLoop r p s i =
     (case search r p s i of
        None \<Rightarrow> Some []
      | Some m \<Rightarrow>
          if matched m = [] then None
          else map_option ((#) m)
                 (execLoop r (fst (after m)) (snd (after m)) (index m + length (matched m))))"
  by pat_completeness auto
termination
  by (relation "measure (\<lambda>(r, p, s, i). length s)") (auto dest: search_after)

declare execLoop.simps [simp del]

definition execAll :: "regex \<Rightarrow> string \<Rightarrow> rmatch list option" where
  "execAll r s = execLoop r None s 0"

text \<open>
  \<open>str.match(re)\<close>, \<open>str.matchAll(re)\<close> and \<open>str.replace(re, ..)\<close> with a \<open>g\<close> regex:
  the built-in loop, which steps one character forward after an empty match.
\<close>

function globalFrom :: "regex \<Rightarrow> char option \<Rightarrow> string \<Rightarrow> nat \<Rightarrow> rmatch list" where
  "globalFrom r p s i =
     (case search r p s i of
        None \<Rightarrow> []
      | Some m \<Rightarrow>
          if matched m \<noteq> []
          then m # globalFrom r (fst (after m)) (snd (after m)) (index m + length (matched m))
          else (case snd (after m) of
                  [] \<Rightarrow> [m]
                | x # xs \<Rightarrow> m # globalFrom r (Some x) xs (Suc (index m))))"
  by pat_completeness auto
termination
proof (relation "measure (\<lambda>(r, p, s, i). length s)", goal_cases)
  case 1
  show ?case by simp
next
  case (2 r p s i m)
  then show ?case by (auto dest: search_after)
next
  case (3 r p s i m x xs)
  then show ?case using search_after[of r p s i m] by auto
qed

declare globalFrom.simps [simp del]

definition matchAll :: "regex \<Rightarrow> string \<Rightarrow> rmatch list" where
  "matchAll r s = globalFrom r None s 0"

fun replaceFrom :: "rmatch list \<Rightarrow> nat \<Rightarrow> string \<Rightarrow> string \<Rightarrow> string" where
  "replaceFrom [] pos rep s = drop pos s"
| "replaceFrom (m # rs) pos rep s =
     take (index m - pos) (drop pos s) @ rep @ replaceFrom rs (index m + length (matched m)) rep s"

definition replaceAll :: "regex \<Rightarrow> string \<Rightarrow> string \<Rightarrow> string" where
  \<comment> \<open>\<open>s.replace(re, rep)\<close>, \<open>re\<close> with the \<open>g\<close> flag, \<open>rep\<close> without \<open>$\<close>\<close>
  "replaceAll r rep s = replaceFrom (matchAll r s) 0 rep s"

definition replaceFirst :: "regex \<Rightarrow> string \<Rightarrow> string \<Rightarrow> string" where
  \<comment> \<open>\<open>s.replace(re, rep)\<close>, \<open>re\<close> without the \<open>g\<close> flag\<close>
  "replaceFirst r rep s =
     (case firstMatch r s of
        None \<Rightarrow> s
      | Some m \<Rightarrow> take (index m) s @ rep @ drop (index m + length (matched m)) s)"

definition searchIndex :: "regex \<Rightarrow> string \<Rightarrow> int" where
  \<comment> \<open>\<open>s.search(re)\<close>\<close>
  "searchIndex r s = (case firstMatch r s of None \<Rightarrow> - 1 | Some m \<Rightarrow> int (index m))"

section \<open>String and array operations of the source language\<close>

definition startsWith :: "string \<Rightarrow> string \<Rightarrow> bool" where
  "startsWith s pre = (take (length pre) s = pre)"

text \<open>\<open>s.split(sep)\<close> for a separator that is not empty (every separator of the source
  is a constant of one or more characters).\<close>

function splitJS :: "string \<Rightarrow> string \<Rightarrow> string list" where
  "splitJS sep [] = [[]]"
| "splitJS sep (x # xs) =
     (if sep \<noteq> [] \<and> take (length sep) (x # xs) = sep
      then [] # splitJS sep (drop (length sep) (x # xs))
      else (case splitJS sep xs of [] \<Rightarrow> [[x]] | w # ws \<Rightarrow> (x # w) # ws))"
  by pat_completeness auto
termination
  by (relation "measure (\<lambda>(sep, s). length s)") (auto simp: neq_Nil_conv)

fun joinJS :: "string \<Rightarrow> string list \<Rightarrow> string" where
  "joinJS sep [] = []"
| "joinJS sep [x] = x"
| "joinJS sep (x # y # ys) = x @ sep @ joinJS sep (y # ys)"

definition trim :: "string \<Rightarrow> string" where
  "trim s = rev (dropWhile isSpace (rev (dropWhile isSpace s)))"

fun includesJS :: "string \<Rightarrow> string \<Rightarrow> bool" where
  \<comment> \<open>\<open>s.includes(sub)\<close>\<close>
  "includesJS [] sub = (sub = [])"
| "includesJS (x # xs) sub = (take (length sub) (x # xs) = sub \<or> includesJS xs sub)"

definition newline :: string where
  "newline = [CHR 0x0A]"

definition splitLines :: "string \<Rightarrow> string list" where
  \<comment> \<open>\<open>content.split("\n")\<close>\<close>
  "splitLines s = splitJS newline s"

type_synonym jsstring = "string option"
  \<comment> \<open>a value that is a string or \<open>undefined\<close> (\<open>None\<close>), as a capture group is\<close>

definition truthy :: "jsstring \<Rightarrow> bool" where
  \<comment> \<open>\<open>if (v)\<close>: neither \<open>undefined\<close> nor the empty string\<close>
  "truthy v = (case v of None \<Rightarrow> False | Some s \<Rightarrow> s \<noteq> [])"

definition uniq :: "'a list \<Rightarrow> 'a list" where
  \<comment> \<open>\<open>[...new Set(xs)]\<close>: the first occurrence of every element, in order\<close>
  "uniq xs = rev (remdups (rev xs))"

text \<open>
  A \<open>Map\<close> with string keys: its entries in insertion order, every key once. \<open>set\<close> on
  a key that is present replaces the value where it stands.
\<close>

type_synonym 'v jsmap = "(string \<times> 'v) list"

definition mapHas :: "string \<Rightarrow> 'v jsmap \<Rightarrow> bool" where
  "mapHas k m = (map_of m k \<noteq> None)"

definition mapSet :: "string \<Rightarrow> 'v \<Rightarrow> 'v jsmap \<Rightarrow> 'v jsmap" where
  "mapSet k v m =
     (if mapHas k m then map (\<lambda>(k', v'). if k' = k then (k', v) else (k', v')) m
      else m @ [(k, v)])"

section \<open>The dependency analyzer\<close>

record SourceFile =
  filePath :: string
  fileContent :: string
  fileLanguage :: string

record DependencyNode =
  nodePath :: string
  nodeImports :: "jsstring list"
  nodeExports :: "jsstring list"
  dependencies :: "string list"
  dependents :: "string list"

record DependencyGraph =
  nodes :: "DependencyNode jsmap"
  circularDependencies :: "string list list"
  missingDependencies :: "(string \<times> string) list"
  unusedFiles :: "string list"

text \<open>
  The functions below return an \<open>option\<close>: \<open>None\<close> stands for a call that does not
  return a value, because a \<open>TypeError\<close> is thrown (a method called on \<open>undefined\<close>) or
  because a loop never ends.
\<close>

subsection \<open>extractImports\<close>

definition quoteCls :: "citem list" where
  \<comment> \<open>\<open>['"]\<close>\<close>
  "quoteCls = [Ch (CHR 0x27), Ch (CHR 0x22)]"

definition es6ImportRegex :: regex where
  \<comment> \<open>\<open>/import\s+(?:[\w*\s{},]*\s+from\s+)?['"]([^'"]+)['"]/g\<close>\<close>
  "es6ImportRegex = seqs [Lit ''import'', Plus (Cls [ClsS]),
     Opt (seqs [Star (Cls [ClsW, Ch (CHR ''*''), ClsS, Ch (CHR ''{''), Ch (CHR ''}''), Ch (CHR '','')]),
                Plus (Cls [ClsS]), Lit ''from'', Plus (Cls [ClsS])]),
     Cls quoteCls, Grp 1 (Plus (NCls quoteCls)), Cls quoteCls]"

definition dynamicImportRegex :: regex where
  \<comment> \<open>\<open>/import\s*$$\s*['"]([^'"]+)['"]\s*$$/g\<close>\<close>
  "dynamicImportRegex = seqs [Lit ''import'', Star (Cls [ClsS]), Eol, Eol, Star (Cls [ClsS]),
     Cls quoteCls, Grp 1 (Plus (NCls quoteCls)), Cls quoteCls, Star (Cls [ClsS]), Eol, Eol]"

definition requireRegex :: regex where
  \<comment> \<open>\<open>/require\s*$$\s*['"]([^'"]+)['"]\s*$$/g\<close>\<close>
  "requireRegex = seqs [Lit ''require'', Star (Cls [ClsS]), Eol, Eol, Star (Cls [ClsS]),
     Cls quoteCls, Grp 1 (Plus (NCls quoteCls)), Cls quoteCls, Star (Cls [ClsS]), Eol, Eol]"

definition pythonImportRegex :: regex where
  \<comment> \<open>\<open>/^(?:from\s+([\w.]+)\s+)?import\s+/gm\<close>\<close>
  "pythonImportRegex = seqs [BolM,
     Opt (seqs [Lit ''from'', Plus (Cls [ClsS]), Grp 1 (Plus (Cls [ClsW, Ch (CHR ''.'')])),
                Plus (Cls [ClsS])]),
     Lit ''import'', Plus (Cls [ClsS])]"

definition javaImportRegex :: regex where
  \<comment> \<open>\<open>/^import\s+([\w.]+);/gm\<close>\<close>
  "javaImportRegex = seqs [BolM, Lit ''import'', Plus (Cls [ClsS]),
     Grp 1 (Plus (Cls [ClsW, Ch (CHR ''.'')])), Lit '';'']"

definition phpUseRegex :: regex where
  \<comment> \<open>\<open>/^use\s+([\w\\]+)/gm\<close>\<close>
  "phpUseRegex = seqs [BolM, Lit ''use'', Plus (Cls [ClsS]),
     Grp 1 (Plus (Cls [ClsW, Ch (CHR 0x5C)]))]"

definition phpRequireRegex :: regex where
  \<comment> \<open>\<open>/require(?:_once)?\s*$$\s*['"]([^'"]+)['"]\s*$$/g\<close>\<close>
  "phpRequireRegex = seqs [Lit ''require'', Opt (Lit ''_once''), Star (Cls [ClsS]), Eol, Eol,
     Star (Cls [ClsS]), Cls quoteCls, Grp 1 (Plus (NCls quoteCls)), Cls quoteCls,
     Star (Cls [ClsS]), Eol, Eol]"

definition group1 :: "rmatch list \<Rightarrow> jsstring list" where
  \<comment> \<open>\<open>imports.push(match[1])\<close> for every match\<close>
  "group1 rs = map (\<lambda>m. capture m 1) rs"

definition extractImports :: "string \<Rightarrow> jsstring list option" where
  "extractImports content = do {
     es6 \<leftarrow> execAll es6ImportRegex content;
     dynamic \<leftarrow> execAll dynamicImportRegex content;
     required \<leftarrow> execAll requireRegex content;
     python \<leftarrow> execAll pythonImportRegex content;
     java \<leftarrow> execAll javaImportRegex content;
     phpUse \<leftarrow> execAll phpUseRegex content;
     phpRequire \<leftarrow> execAll phpRequireRegex content;
     Some (uniq (group1 es6 @ group1 dynamic @ group1 required @ filter truthy (group1 python)
                 @ group1 java @ group1 phpUse @ group1 phpRequire))
   }"

subsection \<open>extractExports\<close>

definition namedExportRegex :: regex where
  \<comment> \<open>\<open>/export\s+(?:const|let|var|function|class|interface|type|enum)\s+(\w+)/g\<close>\<close>
  "namedExportRegex = seqs [Lit ''export'', Plus (Cls [ClsS]),
     Alt (Lit ''const'') (Alt (Lit ''let'') (Alt (Lit ''var'') (Alt (Lit ''function'')
       (Alt (Lit ''class'') (Alt (Lit ''interface'') (Alt (Lit ''type'') (Lit ''enum''))))))),
     Plus (Cls [ClsS]), Grp 1 (Plus (Cls [ClsW]))]"

definition defaultExportRegex :: regex where
  \<comment> \<open>\<open>/export\s+default/\<close>\<close>
  "defaultExportRegex = seqs [Lit ''export'', Plus (Cls [ClsS]), Lit ''default'']"

definition reExportRegex :: regex where
  \<comment> \<open>\<open>/export\s+.*\s+from\s+['"]([^'"]+)['"]/g\<close>\<close>
  "reExportRegex = seqs [Lit ''export'', Plus (Cls [ClsS]), Star Dot, Plus (Cls [ClsS]),
     Lit ''from'', Plus (Cls [ClsS]), Cls quoteCls, Grp 1 (Plus (NCls quoteCls)), Cls quoteCls]"

definition template :: "jsstring \<Rightarrow> string" where
  \<comment> \<open>a value inside a template literal\<close>
  "template v = (case v of None \<Rightarrow> ''undefined'' | Some s \<Rightarrow> s)"

definition extractExports :: "string \<Rightarrow> jsstring list option" where
  "extractExports content = do {
     named \<leftarrow> execAll namedExportRegex content;
     reExports \<leftarrow> execAll reExportRegex content;
     Some (group1 named
           @ (if test defaultExportRegex content then [Some ''default''] else [])
           @ map (\<lambda>m. Some (''re-export:'' @ template (capture m 1))) reExports)
   }"

subsection \<open>resolveImportPaths\<close>

definition isExternalDependency :: "string \<Rightarrow> bool" where
  "isExternalDependency importPath =
     (\<not> startsWith importPath ''.'' \<and> \<not> startsWith importPath ''/'')"

definition normalizePath :: "string list \<Rightarrow> string list" where
  \<comment> \<open>the loop over \<open>parts\<close>; \<open>pop\<close> on an empty array does nothing\<close>
  "normalizePath parts =
     foldl (\<lambda>normalized part.
              if part = ''..'' then butlast normalized
              else if part \<noteq> ''.'' then normalized @ [part]
              else normalized) [] parts"

definition possiblePaths :: "string \<Rightarrow> string list" where
  "possiblePaths resolvedPath =
     [resolvedPath,
      resolvedPath @ ''.js'',
      resolvedPath @ ''.jsx'',
      resolvedPath @ ''.ts'',
      resolvedPath @ ''.tsx'',
      resolvedPath @ ''.py'',
      resolvedPath @ ''.java'',
      resolvedPath @ ''.php'',
      resolvedPath @ ''/index.js'',
      resolvedPath @ ''/index.ts'',
      resolvedPath @ ''/index.tsx'',
      resolvedPath @ ''/index.py'',
      resolvedPath @ ''/__init__.py'']"

definition resolveImport :: "string \<Rightarrow> string \<Rightarrow> SourceFile list \<Rightarrow> string list" where
  \<comment> \<open>the body of the loop over \<open>imports\<close>: what one import adds to \<open>resolved\<close>\<close>
  "resolveImport imp currentFile allFiles =
     (if isExternalDependency imp then []
      else if startsWith imp ''.'' then
        (let currentDir = joinJS ''/'' (butlast (splitJS ''/'' currentFile));
             resolvedPath = (if startsWith imp ''./'' then currentDir @ ''/'' @ drop 2 imp else imp);
             resolvedPath = joinJS ''/'' (normalizePath (splitJS ''/'' resolvedPath))
         in case List.find (\<lambda>p. list_ex (\<lambda>f. filePath f = p) allFiles) (possiblePaths resolvedPath) of
              None \<Rightarrow> []
            | Some p \<Rightarrow> [p])
      else [])"

fun resolveImportPaths :: "jsstring list \<Rightarrow> string \<Rightarrow> SourceFile list \<Rightarrow> string list option" where
  "resolveImportPaths [] currentFile allFiles = Some []"
| "resolveImportPaths (None # imports) currentFile allFiles = None"
| "resolveImportPaths (Some imp # imports) currentFile allFiles =
     map_option ((@) (resolveImport imp currentFile allFiles))
       (resolveImportPaths imports currentFile allFiles)"

subsection \<open>isEntryPoint\<close>

definition tsxJsx :: regex where
  \<comment> \<open>\<open>(tsx?|jsx?)\<close>\<close>
  "tsxJsx = Grp 1 (Alt (Seq (Lit ''ts'') (Opt (Lit ''x''))) (Seq (Lit ''js'') (Opt (Lit ''x''))))"

definition entryPatterns :: "regex list" where
  "entryPatterns =
     [seqs [Bol, Lit ''index.''],
      seqs [Bol, Lit ''main.''],
      seqs [Bol, Lit ''app.''],
      seqs [Bol, Lit ''src/index.''],
      seqs [Bol, Lit ''src/main.''],
      seqs [Lit ''page.'', tsxJsx, Eol],
      seqs [Lit ''layout.'', tsxJsx, Eol]]"

definition isEntryPoint :: "string \<Rightarrow> bool" where
  "isEntryPoint p = list_ex (\<lambda>pattern. test pattern p) entryPatterns"

subsection \<open>detectCircularDependencies\<close>

record dfsState =
  circular :: "string list list"
  visited :: "string list"
  recursionStack :: "string list"

definition recordCycle :: "string \<Rightarrow> string list \<Rightarrow> string list list \<Rightarrow> string list list" where
  \<comment> \<open>the branch \<open>recursionStack.has(dep)\<close>: \<open>indexOf\<close>, \<open>slice\<close>, and the comparison of
     the joined strings\<close>
  "recordCycle dep currentPath circ =
     (if dep \<in> set currentPath then
        (let cycle = dropWhile (\<lambda>x. x \<noteq> dep) currentPath @ [dep];
             cycleStr = joinJS ''->'' cycle
         in if list_ex (\<lambda>c. joinJS ''->'' c = cycleStr) circ then circ else circ @ [cycle])
      else circ)"

text \<open>
  The recursive \<open>dfs\<close> and its loop over the dependencies of a node. A call of \<open>dfs\<close>
  is made for an unvisited path only and marks it visited, so the recursion is no deeper
  than the number of paths; the first argument bounds the depth and \<open>None\<close> says the
  bound was too small.
\<close>

fun dfs :: "nat \<Rightarrow> DependencyNode jsmap \<Rightarrow> string \<Rightarrow> string list \<Rightarrow> dfsState \<Rightarrow> dfsState option"
  and dfsLoop :: "nat \<Rightarrow> DependencyNode jsmap \<Rightarrow> string list \<Rightarrow> string list \<Rightarrow> dfsState \<Rightarrow> dfsState option"
where
  "dfs 0 nodeMap p currentPath st = None"
| "dfs (Suc n) nodeMap p currentPath st =
     (let st1 = st\<lparr>visited := p # visited st, recursionStack := p # recursionStack st\<rparr>;
          currentPath = currentPath @ [p]
      in map_option (\<lambda>st2. st2\<lparr>recursionStack := removeAll p (recursionStack st2)\<rparr>)
           (case map_of nodeMap p of
              None \<Rightarrow> Some st1
            | Some node \<Rightarrow> dfsLoop n nodeMap (dependencies node) currentPath st1))"
| "dfsLoop n nodeMap [] currentPath st = Some st"
| "dfsLoop n nodeMap (dep # deps) currentPath st =
     (if dep \<notin> set (visited st) then
        (case dfs n nodeMap dep currentPath st of
           None \<Rightarrow> None
         | Some st' \<Rightarrow> dfsLoop n nodeMap deps currentPath st')
      else if dep \<in> set (recursionStack st) then
        dfsLoop n nodeMap deps currentPath (st\<lparr>circular := recordCycle dep currentPath (circular st)\<rparr>)
      else dfsLoop n nodeMap deps currentPath st)"

fun dfsRoots :: "nat \<Rightarrow> DependencyNode jsmap \<Rightarrow> string list \<Rightarrow> dfsState \<Rightarrow> dfsState option" where
  \<comment> \<open>\<open>for (const path of nodes.keys()) if (!visited.has(path)) dfs(path, [])\<close>\<close>
  "dfsRoots n nodeMap [] st = Some st"
| "dfsRoots n nodeMap (p # ps) st =
     (if p \<notin> set (visited st) then
        (case dfs n nodeMap p [] st of
           None \<Rightarrow> None
         | Some st' \<Rightarrow> dfsRoots n nodeMap ps st')
      else dfsRoots n nodeMap ps st)"

definition allPaths :: "DependencyNode jsmap \<Rightarrow> string list" where
  \<comment> \<open>every path \<open>dfs\<close> can be called with: the keys and the dependencies\<close>
  "allPaths nodeMap = map fst nodeMap @ concat (map (\<lambda>(k, node). dependencies node) nodeMap)"

definition detectCircularDependencies :: "DependencyNode jsmap \<Rightarrow> string list list option" where
  "detectCircularDependencies nodeMap =
     map_option circular
       (dfsRoots (Suc (length (allPaths nodeMap))) nodeMap (map fst nodeMap)
          \<lparr>circular = [], visited = [], recursionStack = []\<rparr>)"

subsection \<open>analyzeDependencies\<close>

fun firstPass :: "SourceFile list \<Rightarrow> SourceFile list \<Rightarrow> DependencyNode jsmap \<Rightarrow> DependencyNode jsmap option" where
  \<comment> \<open>the loop over \<open>files\<close>; \<open>allFiles\<close> is the whole array\<close>
  "firstPass [] allFiles nodeMap = Some nodeMap"
| "firstPass (file # files) allFiles nodeMap = do {
     imports \<leftarrow> extractImports (fileContent file);
     exports \<leftarrow> extractExports (fileContent file);
     deps \<leftarrow> resolveImportPaths imports (filePath file) allFiles;
     firstPass files allFiles
       (mapSet (filePath file)
          \<lparr>nodePath = filePath file, nodeImports = imports, nodeExports = exports,
           dependencies = deps, dependents = []\<rparr> nodeMap)
   }"

definition pushDependent :: "string \<Rightarrow> string \<Rightarrow> DependencyNode jsmap \<Rightarrow> DependencyNode jsmap" where
  \<comment> \<open>\<open>const depNode = nodes.get(dep); if (depNode) depNode.dependents.push(path)\<close>\<close>
  "pushDependent dep p nodeMap =
     map (\<lambda>(k, node). if k = dep then (k, node\<lparr>dependents := dependents node @ [p]\<rparr>) else (k, node))
       nodeMap"

definition secondPass :: "DependencyNode jsmap \<Rightarrow> DependencyNode jsmap" where
  \<comment> \<open>the loop over the entries; only \<open>dependents\<close> change, so the keys and the
     dependencies it iterates over are those of the first pass\<close>
  "secondPass nodeMap =
     foldl (\<lambda>acc (p, node). foldl (\<lambda>acc dep. pushDependent dep p acc) acc (dependencies node))
       nodeMap nodeMap"

definition detectMissing :: "DependencyNode jsmap \<Rightarrow> (string \<times> string) list" where
  "detectMissing nodeMap =
     concat (map (\<lambda>(p, node).
        map (\<lambda>dep. (p, dep))
          (filter (\<lambda>dep. \<not> mapHas dep nodeMap \<and> \<not> isExternalDependency dep) (dependencies node)))
      nodeMap)"

definition detectUnused :: "DependencyNode jsmap \<Rightarrow> string list" where
  "detectUnused nodeMap =
     map fst (filter (\<lambda>(p, node). dependents node = [] \<and> \<not> isEntryPoint p) nodeMap)"

definition analyzeDependencies :: "SourceFile list \<Rightarrow> DependencyGraph option" where
  "analyzeDependencies files = do {
     nodeMap \<leftarrow> firstPass files files [];
     let nodeMap = secondPass nodeMap;
     circ \<leftarrow> detectCircularDependencies nodeMap;
     Some \<lparr>nodes = nodeMap, circularDependencies = circ,
           missingDependencies = detectMissing nodeMap, unusedFiles = detectUnused nodeMap\<rparr>
   }"

section \<open>The code quality analyzer\<close>

record CodeBlock =
  blockContent :: string
  startLine :: nat
  endLine :: nat
  blockFile :: string

record DuplicateCode =
  blocks :: "CodeBlock list"
  similarity :: rat
  dupLines :: nat

datatype DeadCodeType = DeadFunction | DeadVariable | DeadImport | DeadClass

record DeadCode =
  deadType :: DeadCodeType
  deadName :: jsstring
  deadFile :: string
  deadLine :: nat
  reason :: string

datatype RedundantType = DuplicateLogic | UnnecessaryComplexity | UnusedCode | RedundantCondition

record RedundantCode =
  redundantType :: RedundantType
  redundantFile :: string
  redundantLine :: nat
  message :: string
  suggestion :: string

record ComplexityIssue =
  issueFile :: string
  issueFunction :: jsstring
  complexity :: nat
  issueLine :: nat

record CodeQualityReport =
  duplicates :: "DuplicateCode list"
  deadCode :: "DeadCode list"
  redundantCode :: "RedundantCode list"
  complexityIssues :: "ComplexityIssue list"

subsection \<open>findDuplicateCode\<close>

definition normalizeCode :: "string \<Rightarrow> string" where
  \<comment> \<open>\<open>/\s+/g\<close>, then \<open>/\/\/.*/g\<close>, then \<open>/\/\*[\s\S]*?\*\//g\<close>, then \<open>trim\<close>\<close>
  "normalizeCode code =
     trim (replaceAll (seqs [Lit ''/*'', LazyStar (Cls [ClsS, ClsNS]), Lit ''*/'']) []
       (replaceAll (seqs [Lit ''//'', Star Dot]) []
          (replaceAll (Plus (Cls [ClsS])) '' '' code)))"

text \<open>
  The score is the quotient of two lengths. It is modelled as a rational number; the
  source computes the nearest double, which compares with the double \<open>0.8\<close> as the
  rational does with \<open>8 / 10\<close> for every length a string can have.
\<close>

definition calculateSimilarity :: "string \<Rightarrow> string \<Rightarrow> rat" where
  "calculateSimilarity code1 code2 =
     (let len1 = length code1; len2 = length code2; maxLen = max len1 len2
      in if maxLen = 0 then 1
         else of_nat (length (filter (\<lambda>(a, b). a = b) (zip code1 code2))) / of_nat maxLen)"

definition minLines :: nat where
  "minLines = 5"

definition fileBlocks :: "SourceFile \<Rightarrow> CodeBlock list" where
  \<comment> \<open>the windows of one file: \<open>for (let i = 0; i < lines.length - minLines; i++)\<close>; the
     bound is not positive for a file of \<open>minLines\<close> lines or fewer\<close>
  "fileBlocks file =
     (let ls = splitLines (fileContent file)
      in concat (map (\<lambda>i.
           let block = joinJS newline (take minLines (drop i ls))
           in if length (trim block) > 50
              then [\<lparr>blockContent = normalizeCode block, startLine = i + 1,
                     endLine = i + minLines, blockFile = filePath file\<rparr>]
              else [])
         [0 ..< length ls - minLines]))"

fun compareBlocks :: "CodeBlock list \<Rightarrow> DuplicateCode list" where
  \<comment> \<open>the loops over \<open>i\<close> and \<open>j > i\<close>\<close>
  "compareBlocks [] = []"
| "compareBlocks (b # bs) =
     concat (map (\<lambda>b'.
        let sim = calculateSimilarity (blockContent b) (blockContent b')
        in if sim > 8 / 10 \<and> blockFile b \<noteq> blockFile b'
           then [\<lparr>blocks = [b, b'], similarity = sim, dupLines = minLines\<rparr>]
           else []) bs)
     @ compareBlocks bs"

definition findDuplicateCode :: "SourceFile list \<Rightarrow> DuplicateCode list" where
  "findDuplicateCode files = compareBlocks (concat (map fileBlocks files))"

subsection \<open>extractImports of the quality analyzer\<close>

record Declared =
  declName :: jsstring
  declLine :: nat

definition namedImportRegex :: regex where
  \<comment> \<open>\<open>/import\s+(?:{([^}]+)}|(\w+))\s+from/\<close>\<close>
  "namedImportRegex = seqs [Lit ''import'', Plus (Cls [ClsS]),
     Alt (seqs [Lit ''{'', Grp 1 (Plus (NCls [Ch (CHR ''}'')])), Lit ''}''])
         (Grp 2 (Plus (Cls [ClsW]))),
     Plus (Cls [ClsS]), Lit ''from'']"

definition asRegex :: regex where
  \<comment> \<open>\<open>/\s+as\s+\w+/\<close>\<close>
  "asRegex = seqs [Plus (Cls [ClsS]), Lit ''as'', Plus (Cls [ClsS]), Plus (Cls [ClsW])]"

definition pythonImportLineRegex :: regex where
  \<comment> \<open>\<open>/^(?:from\s+[\w.]+\s+)?import\s+([\w,\s]+)/\<close>\<close>
  "pythonImportLineRegex = seqs [Bol,
     Opt (seqs [Lit ''from'', Plus (Cls [ClsS]), Plus (Cls [ClsW, Ch (CHR ''.'')]), Plus (Cls [ClsS])]),
     Lit ''import'', Plus (Cls [ClsS]), Grp 1 (Plus (Cls [ClsW, Ch (CHR '',''), ClsS]))]"

definition javaImportLineRegex :: regex where
  \<comment> \<open>\<open>/^import\s+([\w.]+);/\<close>\<close>
  "javaImportLineRegex = seqs [Bol, Lit ''import'', Plus (Cls [ClsS]),
     Grp 1 (Plus (Cls [ClsW, Ch (CHR ''.'')])), Lit '';'']"

definition phpUseLineRegex :: regex where
  \<comment> \<open>\<open>/^use\s+([\w\\]+)/\<close>\<close>
  "phpUseLineRegex = seqs [Bol, Lit ''use'', Plus (Cls [ClsS]),
     Grp 1 (Plus (Cls [ClsW, Ch (CHR 0x5C)]))]"

definition lastOr :: "string list \<Rightarrow> string \<Rightarrow> string" where
  \<comment> \<open>\<open>parts.pop() || fullPath\<close>\<close>
  "lastOr parts fullPath =
     (case rev parts of [] \<Rightarrow> fullPath | l # _ \<Rightarrow> if l = [] then fullPath else l)"

definition es6Names :: "rmatch option \<Rightarrow> nat \<Rightarrow> Declared list option" where
  \<comment> \<open>\<open>importMatch[1] ? importMatch[1].split(",").map(..) : [importMatch[2]]\<close>, then the
     loop over the names; \<open>name.replace\<close> on \<open>undefined\<close> throws\<close>
  "es6Names importMatch lineNo =
     (case importMatch of
        None \<Rightarrow> Some []
      | Some m \<Rightarrow>
          (let names = (case capture m 1 of
                          None \<Rightarrow> [capture m 2]
                        | Some g \<Rightarrow>
                            if g \<noteq> [] then map (\<lambda>n. Some (trim n)) (splitJS '','' g)
                            else [capture m 2])
           in those (map (map_option
                  (\<lambda>n. \<lparr>declName = Some (trim (replaceFirst asRegex [] n)), declLine = lineNo\<rparr>))
                names)))"

definition pythonNames :: "rmatch option \<Rightarrow> nat \<Rightarrow> Declared list option" where
  \<comment> \<open>\<open>pythonImport[1].split\<close> on \<open>undefined\<close> throws, and so does \<open>trim\<close> on the first
     element of an empty array\<close>
  "pythonNames pythonImport lineNo =
     (case pythonImport of
        None \<Rightarrow> Some []
      | Some m \<Rightarrow>
          (case capture m 1 of
             None \<Rightarrow> None
           | Some g \<Rightarrow>
               those (map (\<lambda>name.
                        case splitJS '' as '' name of
                          [] \<Rightarrow> None
                        | first # _ \<Rightarrow> Some \<lparr>declName = Some (trim first), declLine = lineNo\<rparr>)
                      (map trim (splitJS '','' g)))))"

definition dottedName :: "rmatch option \<Rightarrow> string \<Rightarrow> nat \<Rightarrow> Declared list option" where
  \<comment> \<open>the Java and PHP \<open>use\<close> branches: the last component of the captured path;
     \<open>fullPath.split\<close> on \<open>undefined\<close> throws\<close>
  "dottedName found sep lineNo =
     (case found of
        None \<Rightarrow> Some []
      | Some m \<Rightarrow>
          (case capture m 1 of
             None \<Rightarrow> None
           | Some fullPath \<Rightarrow>
               Some [\<lparr>declName = Some (lastOr (splitJS sep fullPath) fullPath), declLine = lineNo\<rparr>]))"

definition requireName :: "rmatch option \<Rightarrow> nat \<Rightarrow> Declared list" where
  "requireName phpRequire lineNo =
     (case phpRequire of
        None \<Rightarrow> []
      | Some m \<Rightarrow> [\<lparr>declName = capture m 1, declLine = lineNo\<rparr>])"

definition lineImports :: "string \<Rightarrow> nat \<Rightarrow> Declared list option" where
  \<comment> \<open>the body of \<open>lines.forEach((line, index) => ..)\<close>; \<open>lineNo\<close> is \<open>index + 1\<close>\<close>
  "lineImports line lineNo = do {
     es6 \<leftarrow> es6Names (firstMatch namedImportRegex line) lineNo;
     python \<leftarrow> pythonNames (firstMatch pythonImportLineRegex line) lineNo;
     java \<leftarrow> dottedName (firstMatch javaImportLineRegex line) ''.'' lineNo;
     phpUse \<leftarrow> dottedName (firstMatch phpUseLineRegex line) [CHR 0x5C] lineNo;
     Some (es6 @ python @ java @ phpUse @ requireName (firstMatch phpRequireRegex line) lineNo)
   }"

fun forEachLine :: "(string \<Rightarrow> nat \<Rightarrow> 'a list option) \<Rightarrow> string list \<Rightarrow> nat \<Rightarrow> 'a list option" where
  "forEachLine f [] i = Some []"
| "forEachLine f (line # ls) i = do {
     xs \<leftarrow> f line (i + 1);
     ys \<leftarrow> forEachLine f ls (i + 1);
     Some (xs @ ys)
   }"

definition extractImportsCQ :: "string \<Rightarrow> Declared list option" where
  "extractImportsCQ s = forEachLine lineImports (splitLines s) 0"

subsection \<open>Identifiers, functions and variables\<close>

definition identifierRegex :: regex where
  \<comment> \<open>\<open>/\b([a-zA-Z_$][a-zA-Z0-9_$]*)\b/g\<close>\<close>
  "identifierRegex = seqs [WordB,
     Grp 1 (Seq (Cls [Rng (CHR ''a'') (CHR ''z''), Rng (CHR ''A'') (CHR ''Z''), Ch (CHR ''_''), Ch (CHR ''$'')])
             (Star (Cls [Rng (CHR ''a'') (CHR ''z''), Rng (CHR ''A'') (CHR ''Z''),
                         Rng (CHR ''0'') (CHR ''9''), Ch (CHR ''_''), Ch (CHR ''$'')]))),
     WordB]"

definition extractUsedIdentifiers :: "string \<Rightarrow> jsstring list" where
  \<comment> \<open>the elements of the \<open>Set\<close>; only membership is asked of it\<close>
  "extractUsedIdentifiers s = group1 (matchAll identifierRegex s)"

record FunctionDecl =
  funcName :: jsstring
  funcLine :: nat
  funcBody :: string

fun countBraces :: "string \<Rightarrow> int \<times> bool \<Rightarrow> int \<times> bool" where
  \<comment> \<open>\<open>for (const char of line)\<close> on \<open>(braceCount, started)\<close>\<close>
  "countBraces [] bs = bs"
| "countBraces (ch # chs) (braceCount, started) =
     countBraces chs
       (if ch = CHR ''{'' then (braceCount + 1, True)
        else if ch = CHR ''}'' then (braceCount - 1, started)
        else (braceCount, started))"

fun bodyLoop :: "string list \<Rightarrow> int \<times> bool \<Rightarrow> string \<Rightarrow> string" where
  "bodyLoop [] bs body = body"
| "bodyLoop (line # ls) bs body =
     (let body = body @ line @ newline;
          bs = countBraces line bs
      in if snd bs \<and> fst bs = 0 then body else bodyLoop ls bs body)"

definition extractFunctionBody :: "string \<Rightarrow> nat \<Rightarrow> string" where
  "extractFunctionBody s startLn = bodyLoop (drop startLn (splitLines s)) (0, False) []"

fun pythonBodyLoop :: "string list \<Rightarrow> bool \<Rightarrow> int \<Rightarrow> string \<Rightarrow> string" where
  \<comment> \<open>the flag says \<open>i === startLine\<close>\<close>
  "pythonBodyLoop [] isFirst baseIndent body = body"
| "pythonBodyLoop (line # ls) isFirst baseIndent body =
     (let indent = searchIndex (Cls [ClsNS]) line
      in if isFirst then pythonBodyLoop ls False baseIndent (body @ line @ newline)
         else (let baseIndent = (if baseIndent = - 1 \<and> indent > 0 then indent else baseIndent)
               in if indent < baseIndent \<and> trim line \<noteq> [] then body
                  else pythonBodyLoop ls False baseIndent (body @ line @ newline)))"

definition extractPythonFunctionBody :: "string \<Rightarrow> nat \<Rightarrow> string" where
  "extractPythonFunctionBody s startLn = pythonBodyLoop (drop startLn (splitLines s)) True (- 1) []"

definition funcRegex :: regex where
  \<comment> \<open>\<open>/function\s+(\w+)\s*\(/\<close>\<close>
  "funcRegex = seqs [Lit ''function'', Plus (Cls [ClsS]), Grp 1 (Plus (Cls [ClsW])),
     Star (Cls [ClsS]), Lit ''('']"

definition declKeyword :: regex where
  \<comment> \<open>\<open>(?:const|let|var)\<close>\<close>
  "declKeyword = Alt (Lit ''const'') (Alt (Lit ''let'') (Lit ''var''))"

definition arrowRegex :: regex where
  \<comment> \<open>\<open>/(?:const|let|var)\s+(\w+)\s*=\s*(?:$$[^)]*$$|[^=]+)\s*=>/\<close>\<close>
  "arrowRegex = seqs [declKeyword, Plus (Cls [ClsS]), Grp 1 (Plus (Cls [ClsW])),
     Star (Cls [ClsS]), Lit ''='', Star (Cls [ClsS]),
     Alt (seqs [Eol, Eol, Star (NCls [Ch (CHR '')'')]), Eol, Eol]) (Plus (NCls [Ch (CHR ''='')])),
     Star (Cls [ClsS]), Lit ''=>'']"

definition pythonFuncRegex :: regex where
  \<comment> \<open>\<open>/^def\s+(\w+)\s*\(/\<close>\<close>
  "pythonFuncRegex = seqs [Bol, Lit ''def'', Plus (Cls [ClsS]), Grp 1 (Plus (Cls [ClsW])),
     Star (Cls [ClsS]), Lit ''('']"

definition javaMethodRegex :: regex where
  \<comment> \<open>\<open>/(?:public|private|protected)?\s*(?:static)?\s*\w+\s+(\w+)\s*\(/\<close>\<close>
  "javaMethodRegex = seqs [Opt (Alt (Lit ''public'') (Alt (Lit ''private'') (Lit ''protected''))),
     Star (Cls [ClsS]), Opt (Lit ''static''), Star (Cls [ClsS]), Plus (Cls [ClsW]),
     Plus (Cls [ClsS]), Grp 1 (Plus (Cls [ClsW])), Star (Cls [ClsS]), Lit ''('']"

definition foundFunction :: "rmatch option \<Rightarrow> nat \<Rightarrow> string \<Rightarrow> FunctionDecl list" where
  \<comment> \<open>\<open>if (m) functions.push({ name: m[1], line: index + 1, body })\<close>\<close>
  "foundFunction m lineNo body =
     (case m of None \<Rightarrow> [] | Some r \<Rightarrow> [\<lparr>funcName = capture r 1, funcLine = lineNo, funcBody = body\<rparr>])"

definition lineFunctions :: "string \<Rightarrow> string \<Rightarrow> nat \<Rightarrow> FunctionDecl list" where
  \<comment> \<open>the body of \<open>lines.forEach((line, index) => ..)\<close> at index \<open>i\<close>\<close>
  "lineFunctions s line i =
     foundFunction (firstMatch funcRegex line) (i + 1) (extractFunctionBody s i)
     @ foundFunction (firstMatch arrowRegex line) (i + 1) (extractFunctionBody s i)
     @ foundFunction (firstMatch pythonFuncRegex line) (i + 1) (extractPythonFunctionBody s i)
     @ (if includesJS line ''class '' then []
        else foundFunction (firstMatch javaMethodRegex line) (i + 1) (extractFunctionBody s i))
     @ foundFunction (firstMatch funcRegex line) (i + 1) (extractFunctionBody s i)"

definition extractFunctions :: "string \<Rightarrow> FunctionDecl list" where
  "extractFunctions s =
     concat (map (\<lambda>(i, line). lineFunctions s line i) (enumerate 0 (splitLines s)))"

definition varRegex :: regex where
  \<comment> \<open>\<open>/(?:const|let|var)\s+(\w+)\s*=/\<close>\<close>
  "varRegex = seqs [declKeyword, Plus (Cls [ClsS]), Grp 1 (Plus (Cls [ClsW])),
     Star (Cls [ClsS]), Lit ''='']"

definition extractVariables :: "string \<Rightarrow> Declared list" where
  "extractVariables s =
     concat (map (\<lambda>(i, line).
        case firstMatch varRegex line of
          None \<Rightarrow> []
        | Some m \<Rightarrow> [\<lparr>declName = capture m 1, declLine = i + 1\<rparr>])
      (enumerate 0 (splitLines s)))"

text \<open>
  \<open>countUsages\<close> builds its regex from the identifier's text. For a text of word
  characters, which is all that \<open>(\w+)\<close> can capture, the regex is the text between two
  word boundaries. Any other text would be read as regex syntax; that is not modelled
  and yields \<open>None\<close>.
\<close>

definition countUsages :: "string \<Rightarrow> jsstring \<Rightarrow> nat option" where
  "countUsages s identifier =
     (if list_all isWord (template identifier)
      then Some (length (matchAll (seqs [WordB, Lit (template identifier), WordB]) s))
      else None)"

subsection \<open>findDeadCode\<close>

definition deadImports :: "string \<Rightarrow> Declared list \<Rightarrow> jsstring list \<Rightarrow> DeadCode list" where
  "deadImports file imports usedIdentifiers =
     concat (map (\<lambda>imp.
        if declName imp \<notin> set usedIdentifiers
        then [\<lparr>deadType = DeadImport, deadName = declName imp, deadFile = file,
               deadLine = declLine imp, reason = ''Import is never used in this file''\<rparr>]
        else []) imports)"

definition deadFunctions ::
  "string \<Rightarrow> FunctionDecl list \<Rightarrow> DependencyNode option \<Rightarrow> jsstring list \<Rightarrow> DeadCode list" where
  \<comment> \<open>\<open>node?.exports.includes(func.name)\<close> is \<open>undefined\<close>, hence false, without a node\<close>
  "deadFunctions file functions node usedIdentifiers =
     concat (map (\<lambda>func.
        let isExported = (case node of None \<Rightarrow> False | Some n \<Rightarrow> funcName func \<in> set (nodeExports n));
            isUsedInternally = (funcName func \<in> set usedIdentifiers)
        in if \<not> isExported \<and> \<not> isUsedInternally
           then [\<lparr>deadType = DeadFunction, deadName = funcName func, deadFile = file,
                  deadLine = funcLine func, reason = ''Function is never called or exported''\<rparr>]
           else []) functions)"

fun deadVariables :: "string \<Rightarrow> string \<Rightarrow> Declared list \<Rightarrow> DeadCode list option" where
  "deadVariables file s [] = Some []"
| "deadVariables file s (variable # variables) = do {
     usageCount \<leftarrow> countUsages s (declName variable);
     more \<leftarrow> deadVariables file s variables;
     Some ((if usageCount = 1
            then [\<lparr>deadType = DeadVariable, deadName = declName variable, deadFile = file,
                   deadLine = declLine variable, reason = ''Variable is declared but never used''\<rparr>]
            else []) @ more)
   }"

definition fileDeadCode :: "SourceFile \<Rightarrow> DependencyGraph \<Rightarrow> DeadCode list option" where
  \<comment> \<open>the body of the loop over \<open>files\<close>\<close>
  "fileDeadCode file dependencyGraph = do {
     imports \<leftarrow> extractImportsCQ (fileContent file);
     let usedIdentifiers = extractUsedIdentifiers (fileContent file);
     let functions = extractFunctions (fileContent file);
     let node = map_of (nodes dependencyGraph) (filePath file);
     variables \<leftarrow> deadVariables (filePath file) (fileContent file) (extractVariables (fileContent file));
     Some (deadImports (filePath file) imports usedIdentifiers
           @ deadFunctions (filePath file) functions node usedIdentifiers
           @ variables)
   }"

fun findDeadCode :: "SourceFile list \<Rightarrow> DependencyGraph \<Rightarrow> DeadCode list option" where
  "findDeadCode [] dependencyGraph = Some []"
| "findDeadCode (file # files) dependencyGraph = do {
     xs \<leftarrow> fileDeadCode file dependencyGraph;
     ys \<leftarrow> findDeadCode files dependencyGraph;
     Some (xs @ ys)
   }"

subsection \<open>findRedundantCode\<close>

definition ifTrueRegex :: regex where
  \<comment> \<open>\<open>/if\s*$$\s*true\s*$$/\<close>\<close>
  "ifTrueRegex = seqs [Lit ''if'', Star (Cls [ClsS]), Eol, Eol, Star (Cls [ClsS]), Lit ''true'',
     Star (Cls [ClsS]), Eol, Eol]"

definition ifFalseRegex :: regex where
  \<comment> \<open>\<open>/if\s*$$\s*false\s*$$/\<close>\<close>
  "ifFalseRegex = seqs [Lit ''if'', Star (Cls [ClsS]), Eol, Eol, Star (Cls [ClsS]), Lit ''false'',
     Star (Cls [ClsS]), Eol, Eol]"

definition pyIfTrueRegex :: regex where
  \<comment> \<open>\<open>/if\s+True:/\<close>\<close>
  "pyIfTrueRegex = seqs [Lit ''if'', Plus (Cls [ClsS]), Lit ''True:'']"

definition passRegex :: regex where
  \<comment> \<open>\<open>/pass\s*$/\<close>\<close>
  "passRegex = seqs [Lit ''pass'', Star (Cls [ClsS]), Eol]"

definition printlnRegex :: regex where
  \<comment> \<open>\<open>/System\.out\.println/\<close>\<close>
  "printlnRegex = Lit ''System.out.println''"

definition varDumpRegex :: regex where
  \<comment> \<open>\<open>/var_dump|print_r/\<close>\<close>
  "varDumpRegex = Alt (Lit ''var_dump'') (Lit ''print_r'')"

definition doubleNegationRegex :: regex where
  \<comment> \<open>\<open>/!!\w+/\<close>\<close>
  "doubleNegationRegex = seqs [Lit ''!!'', Plus (Cls [ClsW])]"

definition consoleRegex :: regex where
  \<comment> \<open>\<open>/console\.(log|debug|info|warn)\(/g\<close>, a fresh object at every \<open>test\<close>\<close>
  "consoleRegex = seqs [Lit ''console.'',
     Grp 1 (Alt (Lit ''log'') (Alt (Lit ''debug'') (Alt (Lit ''info'') (Lit ''warn'')))), Lit ''('']"

definition finding :: "bool \<Rightarrow> RedundantType \<Rightarrow> string \<Rightarrow> nat \<Rightarrow> string \<Rightarrow> string \<Rightarrow> RedundantCode list" where
  \<comment> \<open>\<open>if (cond) redundant.push({ type, file, line, message, suggestion })\<close>\<close>
  "finding cond ty file lineNo msg sugg =
     (if cond
      then [\<lparr>redundantType = ty, redundantFile = file, redundantLine = lineNo,
             message = msg, suggestion = sugg\<rparr>]
      else [])"

definition lineRedundant :: "SourceFile \<Rightarrow> string \<Rightarrow> nat \<Rightarrow> RedundantCode list" where
  \<comment> \<open>the body of \<open>lines.forEach((line, index) => ..)\<close> at index \<open>i\<close>\<close>
  "lineRedundant file line i =
     finding (test ifTrueRegex line) RedundantCondition (filePath file) (i + 1)
       ''Condition is always true'' ''Remove the if statement and keep only the code block''
     @ finding (test ifFalseRegex line) RedundantCondition (filePath file) (i + 1)
       ''Condition is always false'' ''Remove this entire if block as it will never execute''
     @ (if fileLanguage file = ''py'' then
          finding (test pyIfTrueRegex line) RedundantCondition (filePath file) (i + 1)
            ''Condition is always True'' ''Remove the if statement and unindent the code block''
          @ finding (test passRegex line \<and> i > 0) UnusedCode (filePath file) (i + 1)
            ''Empty pass statement'' ''Remove pass or add implementation''
        else [])
     @ (if fileLanguage file = ''java'' then
          finding (test printlnRegex line) UnusedCode (filePath file) (i + 1)
            ''Debug print statement found'' ''Remove System.out.println before production''
        else [])
     @ (if fileLanguage file = ''php'' then
          finding (test varDumpRegex line) UnusedCode (filePath file) (i + 1)
            ''Debug statement found'' ''Remove var_dump/print_r before production''
        else [])
     @ finding (test doubleNegationRegex line) UnnecessaryComplexity (filePath file) (i + 1)
       ''Double negation detected'' ''Use Boolean() or remove unnecessary negations''
     @ finding (test consoleRegex line) UnusedCode (filePath file) (i + 1)
       ''Console statement found'' ''Remove console statements before production deployment''"

definition findRedundantCode :: "SourceFile list \<Rightarrow> RedundantCode list" where
  "findRedundantCode files =
     concat (map (\<lambda>file.
        concat (map (\<lambda>(i, line). lineRedundant file line i)
                  (enumerate 0 (splitLines (fileContent file))))) files)"

subsection \<open>analyzeComplexity\<close>

definition wordRegex :: "string \<Rightarrow> regex" where
  \<comment> \<open>\<open>/\bw\b/g\<close>\<close>
  "wordRegex w = seqs [WordB, Lit w, WordB]"

definition decisionKeywords :: "regex list" where
  "decisionKeywords =
     [wordRegex ''if'',
      seqs [WordB, Lit ''else'', Plus (Cls [ClsS]), Lit ''if'', WordB],
      wordRegex ''while'',
      wordRegex ''for'',
      wordRegex ''case'',
      wordRegex ''catch'',
      wordRegex ''&&'',
      wordRegex ''||'',
      seqs [Lit ''?'', Star (Cls [ClsS]), Star Dot, Star (Cls [ClsS]), Lit '':'']]"

definition calculateCyclomaticComplexity :: "string \<Rightarrow> nat" where
  \<comment> \<open>\<open>code.match(keyword)\<close> is \<open>null\<close> or the array of all matches\<close>
  "calculateCyclomaticComplexity code =
     foldl (\<lambda>c keyword. c + length (matchAll keyword code)) 1 decisionKeywords"

definition analyzeComplexity :: "SourceFile list \<Rightarrow> ComplexityIssue list" where
  "analyzeComplexity files =
     concat (map (\<lambda>file.
        concat (map (\<lambda>func.
           let c = calculateCyclomaticComplexity (funcBody func)
           in if c > 10
              then [\<lparr>issueFile = filePath file, issueFunction = funcName func,
                     complexity = c, issueLine = funcLine func\<rparr>]
              else [])
         (extractFunctions (fileContent file)))) files)"

subsection \<open>analyzeCodeQuality\<close>

definition analyzeCodeQuality :: "SourceFile list \<Rightarrow> DependencyGraph \<Rightarrow> CodeQualityReport option" where
  "analyzeCodeQuality files dependencyGraph = do {
     dead \<leftarrow> findDeadCode files dependencyGraph;
     Some \<lparr>duplicates = findDuplicateCode files, deadCode = dead,
           redundantCode = findRedundantCode files, complexityIssues = analyzeComplexity files\<rparr>
   }"

section \<open>Notions used in the proofs\<close>

text \<open>
  What can be read off a regex: the groups it has, whether every match of it consumes
  at least one character (\<open>nonnull\<close>), whether it matches word characters only
  (\<open>wordOnly\<close>), and whether every match of it leaves one of the groups \<open>I\<close> bound
  to the text of a sub-regex that satisfies \<open>G\<close> (\<open>capT\<close>).
\<close>

definition caps :: "mstate \<Rightarrow> (nat \<times> string) list" where
  "caps st = snd (snd st)"

definition consumed :: "mstate \<Rightarrow> mstate \<Rightarrow> string" where
  "consumed st st' = take (length (rest st) - length (rest st')) (rest st)"

primrec groups :: "regex \<Rightarrow> nat list" where
  "groups (Lit l) = []"
| "groups (Cls cs) = []"
| "groups (NCls cs) = []"
| "groups Dot = []"
| "groups (Seq a b) = groups a @ groups b"
| "groups (Alt a b) = groups a @ groups b"
| "groups (Star r) = groups r"
| "groups (LazyStar r) = groups r"
| "groups (Opt r) = groups r"
| "groups (Grp i r) = i # groups r"
| "groups Bol = []"
| "groups BolM = []"
| "groups Eol = []"
| "groups WordB = []"

primrec nonnull :: "regex \<Rightarrow> bool" where
  "nonnull (Lit l) = (l \<noteq> [])"
| "nonnull (Cls cs) = True"
| "nonnull (NCls cs) = True"
| "nonnull Dot = True"
| "nonnull (Seq a b) = (nonnull a \<or> nonnull b)"
| "nonnull (Alt a b) = (nonnull a \<and> nonnull b)"
| "nonnull (Star r) = False"
| "nonnull (LazyStar r) = False"
| "nonnull (Opt r) = False"
| "nonnull (Grp i r) = nonnull r"
| "nonnull Bol = False"
| "nonnull BolM = False"
| "nonnull Eol = False"
| "nonnull WordB = False"

primrec wordOnly :: "regex \<Rightarrow> bool" where
  "wordOnly (Lit l) = list_all isWord l"
| "wordOnly (Cls cs) = (cs = [ClsW])"
| "wordOnly (NCls cs) = False"
| "wordOnly Dot = False"
| "wordOnly (Seq a b) = (wordOnly a \<and> wordOnly b)"
| "wordOnly (Alt a b) = (wordOnly a \<and> wordOnly b)"
| "wordOnly (Star r) = wordOnly r"
| "wordOnly (LazyStar r) = wordOnly r"
| "wordOnly (Opt r) = wordOnly r"
| "wordOnly (Grp i r) = wordOnly r"
| "wordOnly Bol = True"
| "wordOnly BolM = True"
| "wordOnly Eol = True"
| "wordOnly WordB = True"

primrec capT :: "(regex \<Rightarrow> bool) \<Rightarrow> nat list \<Rightarrow> regex \<Rightarrow> bool" where
  "capT G I (Lit l) = False"
| "capT G I (Cls cs) = False"
| "capT G I (NCls cs) = False"
| "capT G I Dot = False"
| "capT G I (Seq a b) = ((capT G I a \<and> list_all (\<lambda>i. i \<notin> set (groups b)) I) \<or> capT G I b)"
| "capT G I (Alt a b) = (capT G I a \<and> capT G I b)"
| "capT G I (Star r) = False"
| "capT G I (LazyStar r) = False"
| "capT G I (Opt r) = False"
| "capT G I (Grp j r) = (if j \<in> set I then G r else capT G I r)"
| "capT G I Bol = False"
| "capT G I BolM = False"
| "capT G I Eol = False"
| "capT G I WordB = False"

text \<open>
  Node maps: every node stands under its own path and has no dependents yet (\<open>keyed\<close>,
  the state after the first pass); no node has a dependency (\<open>noDeps\<close>); every
  dependency is in a given set (\<open>depsIn\<close>). \<open>pushed k es\<close> is what the second pass
  appends to the dependents of the node under \<open>k\<close>.
\<close>

definition keyed :: "DependencyNode jsmap \<Rightarrow> bool" where
  "keyed nodeMap = list_all (\<lambda>(k, n). nodePath n = k \<and> dependents n = []) nodeMap"

definition noDeps :: "DependencyNode jsmap \<Rightarrow> bool" where
  "noDeps nodeMap = list_all (\<lambda>(k, n). dependencies n = []) nodeMap"

definition depsIn :: "string set \<Rightarrow> DependencyNode jsmap \<Rightarrow> bool" where
  "depsIn S nodeMap = list_all (\<lambda>(k, n). set (dependencies n) \<subseteq> S) nodeMap"

definition pushed :: "string \<Rightarrow> DependencyNode jsmap \<Rightarrow> string list" where
  "pushed k es = concat (map (\<lambda>(p, m). map (\<lambda>d. p) (filter (\<lambda>d. d = k) (dependencies m))) es)"

definition withPushed :: "(string \<Rightarrow> string list) \<Rightarrow> DependencyNode jsmap \<Rightarrow> DependencyNode jsmap" where
  "withPushed f nodeMap = map (\<lambda>(k, n). (k, n\<lparr>dependents := dependents n @ f k\<rparr>)) nodeMap"

text \<open>
  The scores of the duplicates found among a list of blocks, as a multiset, and those of
  the pairs with one block from each of two lists.
\<close>

definition blockScores :: "CodeBlock list \<Rightarrow> rat multiset" where
  "blockScores bs = mset (map similarity (compareBlocks bs))"

definition crossScores :: "CodeBlock list \<Rightarrow> CodeBlock list \<Rightarrow> rat multiset" where
  "crossScores as bs = (\<Sum>a\<in>#mset as. \<Sum>b\<in>#mset bs. blockScores [a, b])"

text \<open>Inputs of the examples.\<close>

definition fiveLines :: string where
  "fiveLines = joinJS newline (replicate 5 ''const total = compute(1, 2);'')"

definition sixLines :: string where
  "sixLines = joinJS newline (replicate 6 ''const total = compute(1, 2);'')"

definition emptyFiles :: "SourceFile list" where
  "emptyFiles = [\<lparr>filePath = ''c.ts'', fileContent = [], fileLanguage = ''ts''\<rparr>,
                 \<lparr>filePath = ''index.ts'', fileContent = [], fileLanguage = ''ts''\<rparr>]"

section \<open>Properties\<close>

subsection \<open>What a successful analysis returns\<close>

lemma analyzeDependencies_Some:
  assumes "analyzeDependencies files = Some g"
  obtains nodeMap circ where "firstPass files files [] = Some nodeMap"
    and "detectCircularDependencies (secondPass nodeMap) = Some circ"
    and "g = \<lparr>nodes = secondPass nodeMap, circularDependencies = circ,
              missingDependencies = detectMissing (secondPass nodeMap),
              unusedFiles = detectUnused (secondPass nodeMap)\<rparr>"
  using assms unfolding analyzeDependencies_def
  by (auto simp: Let_def split: Option.bind_splits)

subsection \<open>Similarity\<close>

lemma zip_matches_sym:
  "length (filter (\<lambda>(a, b). a = b) (zip xs ys)) = length (filter (\<lambda>(a, b). a = b) (zip ys xs))"
proof (induction xs arbitrary: ys)
  case Nil
  then show ?case by simp
next
  case (Cons x xs)
  then show ?case by (cases ys) auto
qed

lemma similarity_sym: "calculateSimilarity c d = calculateSimilarity d c"
  unfolding calculateSimilarity_def Let_def
  by (simp add: zip_matches_sym[of c d] max.commute)

lemma blockScores_pair_sym: "blockScores [a, b] = blockScores [b, a]"
  using similarity_sym[of "blockContent a" "blockContent b"]
  by (auto simp: blockScores_def Let_def)

lemma crossScores_sym: "crossScores as bs = crossScores bs as"
  unfolding crossScores_def by (subst sum_mset.swap) (simp add: blockScores_pair_sym)

lemma blockScores_Cons:
  "blockScores (a # bs) = (\<Sum>b\<in>#mset bs. blockScores [a, b]) + blockScores bs"
proof -
  have "mset (map similarity (concat (map (\<lambda>b'.
        let sim = calculateSimilarity (blockContent a) (blockContent b')
        in if sim > 8 / 10 \<and> blockFile a \<noteq> blockFile b'
           then [\<lparr>blocks = [a, b'], similarity = sim, dupLines = minLines\<rparr>]
           else []) bs))) = (\<Sum>b\<in>#mset bs. blockScores [a, b])"
    by (induction bs) (auto simp: blockScores_def Let_def)
  then show ?thesis by (simp add: blockScores_def)
qed

lemma blockScores_append:
  "blockScores (as @ bs) = blockScores as + crossScores as bs + blockScores bs"
proof (induction as)
  case Nil
  then show ?case by (simp add: crossScores_def blockScores_def)
next
  case (Cons a as)
  have "blockScores ((a # as) @ bs)
      = (\<Sum>b\<in>#mset (as @ bs). blockScores [a, b]) + blockScores (as @ bs)"
    using blockScores_Cons[of a "as @ bs"] by simp
  also have "\<dots> = ((\<Sum>b\<in>#mset as. blockScores [a, b]) + blockScores as)
      + ((\<Sum>b\<in>#mset bs. blockScores [a, b]) + crossScores as bs) + blockScores bs"
    by (simp add: Cons.IH ac_simps)
  also have "\<dots> = blockScores (a # as) + crossScores (a # as) bs + blockScores bs"
    by (simp only: blockScores_Cons[of a as, symmetric]) (simp add: crossScores_def)
  finally show ?case .
qed

text \<open>
  Claim C8. The similarity score does not depend on the order of its arguments: the
  number of positions that agree and the longer length are the same either way. So two
  blocks compared in either order get the same score, and two files given in either
  order yield the same scores.
\<close>

theorem calculateSimilarity_symmetric:
  \<open>calculateSimilarity a b = calculateSimilarity b a
   \<and> map similarity (compareBlocks [x, y]) = map similarity (compareBlocks [y, x])
   \<and> mset (map similarity (findDuplicateCode [f1, f2]))
     = mset (map similarity (findDuplicateCode [f2, f1]))\<close>
proof -
  have "blockScores (fileBlocks f1 @ fileBlocks f2) = blockScores (fileBlocks f2 @ fileBlocks f1)"
    by (simp add: blockScores_append crossScores_sym[of "fileBlocks f1"] ac_simps)
  then have "mset (map similarity (findDuplicateCode [f1, f2]))
     = mset (map similarity (findDuplicateCode [f2, f1]))"
    by (simp add: findDuplicateCode_def blockScores_def)
  moreover have "map similarity (compareBlocks [x, y]) = map similarity (compareBlocks [y, x])"
    using similarity_sym[of "blockContent x" "blockContent y"] by (auto simp: Let_def)
  ultimately show ?thesis using similarity_sym[of a b] by blast
qed

subsection \<open>Windows of short files\<close>

text \<open>
  Claim C10. A file of five lines or fewer yields no window: the loop runs while
  \<open>i < lines.length - 5\<close>. Two such files are therefore never reported as duplicates of
  each other, whatever they contain. In any file every window ends before the last line,
  so the last possible window is never taken.
\<close>

theorem short_files_have_no_blocks:
  assumes "length (splitLines (fileContent f1)) \<le> 5"
    and "length (splitLines (fileContent f2)) \<le> 5"
  shows "fileBlocks f1 = [] \<and> findDuplicateCode [f1, f2] = []
     \<and> list_all (\<lambda>b. endLine b < length (splitLines (fileContent f))) (fileBlocks f)"
proof -
  have "fileBlocks f1 = []" "fileBlocks f2 = []"
    using assms by (simp_all add: fileBlocks_def minLines_def Let_def)
  moreover have "list_all (\<lambda>b. endLine b < length (splitLines (fileContent f))) (fileBlocks f)"
    by (auto simp: fileBlocks_def list_all_iff Let_def minLines_def split: if_splits)
  ultimately show ?thesis by (simp add: findDuplicateCode_def)
qed

theorem short_files_have_no_blocks_witness:
  \<open>length (splitLines fiveLines) \<le> 5 \<and> length (trim fiveLines) > 50
   \<and> fileBlocks \<lparr>filePath = ''a.ts'', fileContent = fiveLines, fileLanguage = ''ts''\<rparr> = []
   \<and> findDuplicateCode [\<lparr>filePath = ''a.ts'', fileContent = fiveLines, fileLanguage = ''ts''\<rparr>,
                         \<lparr>filePath = ''b.ts'', fileContent = fiveLines, fileLanguage = ''ts''\<rparr>] = []
   \<and> length (splitLines sixLines) = 6
   \<and> map (\<lambda>b. (startLine b, endLine b))
        (fileBlocks \<lparr>filePath = ''a.ts'', fileContent = sixLines, fileLanguage = ''ts''\<rparr>) = [(1, 5)]\<close>
proof -
  have l: "length (splitLines fiveLines) \<le> 5" by code_simp
  have t: "length (trim fiveLines) > 50" by code_simp
  have s: "length (splitLines sixLines) = 6" by code_simp
  have b: "map (\<lambda>b. (startLine b, endLine b))
        (fileBlocks \<lparr>filePath = ''a.ts'', fileContent = sixLines, fileLanguage = ''ts''\<rparr>) = [(1, 5)]"
    by code_simp
  show ?thesis
    using l t s b short_files_have_no_blocks[of "\<lparr>filePath = ''a.ts'', fileContent = fiveLines, fileLanguage = ''ts''\<rparr>"
        "\<lparr>filePath = ''b.ts'', fileContent = fiveLines, fileLanguage = ''ts''\<rparr>"]
    by simp
qed

subsection \<open>Cyclomatic complexity\<close>

text \<open>
  Claim C6. The body \<open>if (a && b) { if (c) {} }\<close> has two \<open>if\<close>, one \<open>&&\<close> and no other
  decision point, and its complexity is computed as 3, not 4: the pattern \<open>\b&&\b\<close> asks
  for a word boundary on both sides of the operator, and there is none between a space
  and \<open>&\<close>. The same holds for the body that \<open>extractFunctions\<close> cuts out of a
  function \<open>f\<close> with these statements (the function is found by three of its patterns).
\<close>

theorem complexity_two_if_one_and:
  \<open>calculateCyclomaticComplexity ''if (a && b) { if (c) {} }'' = 3
   \<and> map (\<lambda>func. calculateCyclomaticComplexity (funcBody func))
       (extractFunctions (''function f(a, b, c) {'' @ newline
          @ ''  if (a && b) { if (c) {} }'' @ newline @ ''}'')) = [3, 3, 3]\<close>
  by code_simp

text \<open>Without the spaces around the operator it is counted.\<close>

lemma complexity_and_without_spaces:
  \<open>calculateCyclomaticComplexity ''if (a&&b) { if (c) {} }'' = 4\<close>
  by code_simp

subsection \<open>Imports that are not extracted\<close>

text \<open>
  Claim C4. From the contents \<open>require("x")\<close> and \<open>import("x")\<close> no import is
  extracted: the patterns for \<open>require\<close> and for the dynamic import have \<open>$$\<close> where the
  parentheses should be, and an end of input followed by a quote never matches.
\<close>

theorem require_not_extracted:
  \<open>extractImports ''require("x")'' = Some [] \<and> extractImports ''import("x")'' = Some []\<close>
  by code_simp

subsection \<open>Unused files\<close>

lemma isEntryPoint_index: "isEntryPoint ''index.ts''"
  by code_simp

lemma index_never_unused: "''index.ts'' \<notin> set (detectUnused nodeMap)"
  using isEntryPoint_index by (auto simp: detectUnused_def)

text \<open>
  Claim C7. A node without dependents whose path is no entry point is among the unused
  files of the graph; and with \<open>index.ts\<close> for its path, every node left as it is, it
  is not.
\<close>

theorem unused_files_reported:
  assumes "analyzeDependencies files = Some g"
    and "(p, n) \<in> set (nodes g)"
    and "dependents n = []"
    and "\<not> isEntryPoint p"
  shows "p \<in> set (unusedFiles g)
     \<and> ''index.ts'' \<notin> set (detectUnused (map (\<lambda>(k, v). (if k = p then ''index.ts'' else k, v)) (nodes g)))"
proof -
  from assms(1) have "unusedFiles g = detectUnused (nodes g)"
    by (rule analyzeDependencies_Some) simp
  moreover have "p \<in> set (detectUnused (nodes g))"
    using assms(2-4) by (force simp: detectUnused_def)
  ultimately show ?thesis using index_never_unused by simp
qed

theorem unused_files_reported_witness:
  \<open>analyzeDependencies [\<lparr>filePath = ''util.ts'', fileContent = ''export const x = 1'', fileLanguage = ''ts''\<rparr>]
     = Some \<lparr>nodes = [(''util.ts'', \<lparr>nodePath = ''util.ts'', nodeImports = [], nodeExports = [Some ''x''],
                                    dependencies = [], dependents = []\<rparr>)],
             circularDependencies = [], missingDependencies = [], unusedFiles = [''util.ts'']\<rparr>
   \<and> \<not> isEntryPoint ''util.ts''
   \<and> ''util.ts'' \<in> set [''util.ts'']
   \<and> ''index.ts'' \<notin> set (detectUnused [(''index.ts'', \<lparr>nodePath = ''util.ts'', nodeImports = [],
          nodeExports = [Some ''x''], dependencies = [], dependents = []\<rparr>)])\<close>
proof -
  have a: \<open>analyzeDependencies [\<lparr>filePath = ''util.ts'', fileContent = ''export const x = 1'', fileLanguage = ''ts''\<rparr>]
     = Some \<lparr>nodes = [(''util.ts'', \<lparr>nodePath = ''util.ts'', nodeImports = [], nodeExports = [Some ''x''],
                                    dependencies = [], dependents = []\<rparr>)],
             circularDependencies = [], missingDependencies = [], unusedFiles = [''util.ts'']\<rparr>\<close>
    by code_simp
  have e: "\<not> isEntryPoint ''util.ts''" by code_simp
  show ?thesis
    using unused_files_reported[OF a _ _ e, of "\<lparr>nodePath = ''util.ts'', nodeImports = [], nodeExports = [Some ''x''],
                                    dependencies = [], dependents = []\<rparr>"] a e
    by simp
qed

subsection \<open>Missing dependencies\<close>

text \<open>
  Claim C1. The single file \<open>c.ts\<close> with the content \<open>import "./missing"\<close>: the specifier
  is extracted and resolves to no file, and the list of missing dependencies is empty.
  \<open>resolveImportPaths\<close> keeps only the paths it found in the file set, so the later scan
  for dependencies that are not nodes has nothing to find.
\<close>

theorem missing_not_reported:
  \<open>analyzeDependencies [\<lparr>filePath = ''c.ts'', fileContent = ''import "./missing"'', fileLanguage = ''ts''\<rparr>]
     = Some \<lparr>nodes = [(''c.ts'', \<lparr>nodePath = ''c.ts'', nodeImports = [Some ''./missing''], nodeExports = [],
                                 dependencies = [], dependents = []\<rparr>)],
             circularDependencies = [], missingDependencies = [], unusedFiles = [''c.ts'']\<rparr>\<close>
  by code_simp

subsection \<open>A cycle between two files\<close>

text \<open>
  Claim C2. The files \<open>a.ts\<close> with \<open>import "./b"\<close> and \<open>b.ts\<close> with \<open>import "./a"\<close>: no
  cycle is found and both files are reported unused. The directory of a file at the
  root is the empty string, so \<open>./b\<close> becomes \<open>/b\<close>, and \<open>/b.ts\<close> is not \<open>b.ts\<close>.
\<close>

theorem root_cycle_not_found:
  \<open>analyzeDependencies [\<lparr>filePath = ''a.ts'', fileContent = ''import "./b"'', fileLanguage = ''ts''\<rparr>,
                        \<lparr>filePath = ''b.ts'', fileContent = ''import "./a"'', fileLanguage = ''ts''\<rparr>]
     = Some \<lparr>nodes = [(''a.ts'', \<lparr>nodePath = ''a.ts'', nodeImports = [Some ''./b''], nodeExports = [],
                                 dependencies = [], dependents = []\<rparr>),
                      (''b.ts'', \<lparr>nodePath = ''b.ts'', nodeImports = [Some ''./a''], nodeExports = [],
                                 dependencies = [], dependents = []\<rparr>)],
             circularDependencies = [], missingDependencies = [], unusedFiles = [''a.ts'', ''b.ts'']\<rparr>\<close>
  by code_simp

text \<open>The same two files in a directory: the cycle is found.\<close>

lemma nested_cycle_found:
  \<open>map_option circularDependencies
     (analyzeDependencies [\<lparr>filePath = ''src/a.ts'', fileContent = ''import "./b"'', fileLanguage = ''ts''\<rparr>,
                           \<lparr>filePath = ''src/b.ts'', fileContent = ''import "./a"'', fileLanguage = ''ts''\<rparr>])
     = Some [[''src/a.ts'', ''src/b.ts'', ''src/a.ts'']]\<close>
  by code_simp

subsection \<open>Dead functions\<close>

text \<open>
  Claim C5. The file \<open>a.js\<close> with the content \<open>function foo() {}\<close>: the function \<open>foo\<close>
  is detected, it is not exported and its name occurs nowhere but in its declaration,
  and no dead code is reported. The identifiers of the file include the name in the
  declaration itself, so the test for an internal use succeeds.
\<close>

theorem uncalled_function_not_reported:
  \<open>map funcName (extractFunctions ''function foo() {}'') = [Some ''foo'', Some ''foo'', Some ''foo'']
   \<and> extractUsedIdentifiers ''function foo() {}'' = [Some ''function'', Some ''foo'']
   \<and> Option.bind (analyzeDependencies [\<lparr>filePath = ''a.js'', fileContent = ''function foo() {}'', fileLanguage = ''js''\<rparr>])
        (\<lambda>g. map_option (Pair (nodes g))
           (findDeadCode [\<lparr>filePath = ''a.js'', fileContent = ''function foo() {}'', fileLanguage = ''js''\<rparr>] g))
     = Some ([(''a.js'', \<lparr>nodePath = ''a.js'', nodeImports = [], nodeExports = [],
                          dependencies = [], dependents = []\<rparr>)], [])\<close>
  by code_simp

text \<open>The check for variables does leave the declaration out: it asks for one occurrence.\<close>

lemma unused_variable_reported:
  \<open>findDeadCode [\<lparr>filePath = ''a.js'', fileContent = ''const x = 1'', fileLanguage = ''js''\<rparr>]
     \<lparr>nodes = [], circularDependencies = [], missingDependencies = [], unusedFiles = []\<rparr>
   = Some [\<lparr>deadType = DeadVariable, deadName = Some ''x'', deadFile = ''a.js'', deadLine = 1,
            reason = ''Variable is declared but never used''\<rparr>]\<close>
  by code_simp

subsection \<open>The second pass\<close>

text \<open>
  After the first pass every node stands under its own path and has no dependents. The
  second pass appends to the dependents of the node under \<open>k\<close> the key of every entry
  that depends on \<open>k\<close>, once for each occurrence (\<open>pushed\<close>).
\<close>

lemma keyed_mapSet:
  "keyed nodeMap \<Longrightarrow> nodePath v = k \<Longrightarrow> dependents v = [] \<Longrightarrow> keyed (mapSet k v nodeMap)"
  by (auto simp: keyed_def mapSet_def list_all_iff split: if_splits)

lemma firstPass_keyed:
  "firstPass files allFiles nodeMap = Some res \<Longrightarrow> keyed nodeMap \<Longrightarrow> keyed res"
proof (induction files arbitrary: nodeMap)
  case Nil
  then show ?case by simp
next
  case (Cons f fs)
  from Cons.prems(1) obtain imps exps deps where
    "firstPass fs allFiles (mapSet (filePath f)
          \<lparr>nodePath = filePath f, nodeImports = imps, nodeExports = exps,
           dependencies = deps, dependents = []\<rparr> nodeMap) = Some res"
    by (auto split: Option.bind_splits)
  then show ?case using Cons.IH Cons.prems(2) keyed_mapSet by simp
qed

lemma push_loop:
  "foldl (\<lambda>acc dep. pushDependent dep p acc) acc ds
     = withPushed (\<lambda>k. map (\<lambda>d. p) (filter (\<lambda>d. d = k) ds)) acc"
proof (induction ds arbitrary: acc)
  case Nil
  then show ?case by (simp add: withPushed_def)
next
  case (Cons d ds)
  show ?case
    by (simp add: Cons.IH) (auto simp: withPushed_def pushDependent_def)
qed

lemma withPushed_withPushed:
  "withPushed f (withPushed g acc) = withPushed (\<lambda>k. g k @ f k) acc"
  by (auto simp: withPushed_def)

lemma entries_loop:
  "foldl (\<lambda>acc (p, node). foldl (\<lambda>acc dep. pushDependent dep p acc) acc (dependencies node)) acc es
     = withPushed (\<lambda>k. pushed k es) acc"
proof (induction es arbitrary: acc)
  case Nil
  then show ?case by (simp add: withPushed_def pushed_def)
next
  case (Cons e es)
  obtain p m where e: "e = (p, m)" by (cases e)
  have "foldl (\<lambda>acc (p, node). foldl (\<lambda>acc dep. pushDependent dep p acc) acc (dependencies node)) acc (e # es)
      = withPushed (\<lambda>k. pushed k es) (foldl (\<lambda>acc dep. pushDependent dep p acc) acc (dependencies m))"
    using Cons.IH by (simp add: e)
  also have "\<dots> = withPushed (\<lambda>k. pushed k (e # es)) acc"
    by (simp add: push_loop withPushed_withPushed e pushed_def)
  finally show ?case .
qed

lemma secondPass_eq: "secondPass nodeMap = withPushed (\<lambda>k. pushed k nodeMap) nodeMap"
  by (simp add: secondPass_def entries_loop)

lemma set_pushed: "set (pushed k es) = {p. \<exists>m. (p, m) \<in> set es \<and> k \<in> set (dependencies m)}"
  by (auto simp: pushed_def)

text \<open>
  Claim C3. In the graph that \<open>analyzeDependencies\<close> returns, the dependents of a
  node are exactly the paths of the nodes that have its path among their dependencies.
\<close>

theorem dependents_are_reverse_dependencies:
  assumes "analyzeDependencies files = Some g"
    and "(p, n) \<in> set (nodes g)"
  shows "set (dependents n)
     = {nodePath m | m. m \<in> snd ` set (nodes g) \<and> nodePath n \<in> set (dependencies m)}"
proof -
  from assms(1) obtain nodeMap where fp: "firstPass files files [] = Some nodeMap"
    and g: "nodes g = secondPass nodeMap"
    by (rule analyzeDependencies_Some) simp
  have k: "keyed nodeMap" using firstPass_keyed[OF fp] by (simp add: keyed_def)
  from assms(2) obtain n0 where n0: "(p, n0) \<in> set nodeMap"
    and n: "n = n0\<lparr>dependents := dependents n0 @ pushed p nodeMap\<rparr>"
    by (auto simp: g secondPass_eq withPushed_def)
  have p: "nodePath n = p" and d: "set (dependents n) = set (pushed p nodeMap)"
    using k n0 n by (auto simp: keyed_def list_all_iff)
  have "{nodePath m | m. m \<in> snd ` set (nodes g) \<and> p \<in> set (dependencies m)}
      = {q. \<exists>m. (q, m) \<in> set nodeMap \<and> p \<in> set (dependencies m)}" (is "?L = ?R")
  proof (intro set_eqI iffI)
    fix q assume "q \<in> ?L"
    then obtain k0 m0 where "(k0, m0) \<in> set nodeMap" "q = nodePath m0" "p \<in> set (dependencies m0)"
      by (auto simp: g secondPass_eq withPushed_def)
    then show "q \<in> ?R" using k by (auto simp: keyed_def list_all_iff)
  next
    fix q assume "q \<in> ?R"
    then obtain m0 where m0: "(q, m0) \<in> set nodeMap" "p \<in> set (dependencies m0)" by auto
    define m1 where "m1 = m0\<lparr>dependents := dependents m0 @ pushed q nodeMap\<rparr>"
    have "(q, m1) \<in> set (nodes g)"
      using m0(1) by (force simp: m1_def g secondPass_eq withPushed_def)
    then have "m1 \<in> snd ` set (nodes g)" by force
    moreover have "nodePath m1 = q" using k m0 by (auto simp: m1_def keyed_def list_all_iff)
    moreover have "p \<in> set (dependencies m1)" using m0(2) by (simp add: m1_def)
    ultimately show "q \<in> ?L" by blast
  qed
  then show ?thesis using p d by (simp add: set_pushed)
qed

theorem dependents_are_reverse_dependencies_witness:
  \<open>analyzeDependencies
      [\<lparr>filePath = ''src/a.ts'', fileContent = ''import "./c"'', fileLanguage = ''ts''\<rparr>,
       \<lparr>filePath = ''src/b.ts'', fileContent = ''import "./c"'', fileLanguage = ''ts''\<rparr>,
       \<lparr>filePath = ''src/c.ts'', fileContent = ''export const c = 1'', fileLanguage = ''ts''\<rparr>]
     = Some \<lparr>nodes =
         [(''src/a.ts'', \<lparr>nodePath = ''src/a.ts'', nodeImports = [Some ''./c''], nodeExports = [],
                          dependencies = [''src/c.ts''], dependents = []\<rparr>),
          (''src/b.ts'', \<lparr>nodePath = ''src/b.ts'', nodeImports = [Some ''./c''], nodeExports = [],
                          dependencies = [''src/c.ts''], dependents = []\<rparr>),
          (''src/c.ts'', \<lparr>nodePath = ''src/c.ts'', nodeImports = [], nodeExports = [Some ''c''],
                          dependencies = [], dependents = [''src/a.ts'', ''src/b.ts'']\<rparr>)],
        circularDependencies = [], missingDependencies = [], unusedFiles = [''src/a.ts'', ''src/b.ts'']\<rparr>
   \<and> set [''src/a.ts'', ''src/b.ts'']
     = {nodePath m | m. m \<in> snd ` set
         [(''src/a.ts'', \<lparr>nodePath = ''src/a.ts'', nodeImports = [Some ''./c''], nodeExports = [],
                          dependencies = [''src/c.ts''], dependents = []\<rparr>),
          (''src/b.ts'', \<lparr>nodePath = ''src/b.ts'', nodeImports = [Some ''./c''], nodeExports = [],
                          dependencies = [''src/c.ts''], dependents = []\<rparr>),
          (''src/c.ts'', \<lparr>nodePath = ''src/c.ts'', nodeImports = [], nodeExports = [Some ''c''],
                          dependencies = [], dependents = [''src/a.ts'', ''src/b.ts'']\<rparr>)]
        \<and> ''src/c.ts'' \<in> set (dependencies m)}\<close>
proof -
  have a: \<open>analyzeDependencies
      [\<lparr>filePath = ''src/a.ts'', fileContent = ''import "./c"'', fileLanguage = ''ts''\<rparr>,
       \<lparr>filePath = ''src/b.ts'', fileContent = ''import "./c"'', fileLanguage = ''ts''\<rparr>,
       \<lparr>filePath = ''src/c.ts'', fileContent = ''export const c = 1'', fileLanguage = ''ts''\<rparr>]
     = Some \<lparr>nodes =
         [(''src/a.ts'', \<lparr>nodePath = ''src/a.ts'', nodeImports = [Some ''./c''], nodeExports = [],
                          dependencies = [''src/c.ts''], dependents = []\<rparr>),
          (''src/b.ts'', \<lparr>nodePath = ''src/b.ts'', nodeImports = [Some ''./c''], nodeExports = [],
                          dependencies = [''src/c.ts''], dependents = []\<rparr>),
          (''src/c.ts'', \<lparr>nodePath = ''src/c.ts'', nodeImports = [], nodeExports = [Some ''c''],
                          dependencies = [], dependents = [''src/a.ts'', ''src/b.ts'']\<rparr>)],
        circularDependencies = [], missingDependencies = [], unusedFiles = [''src/a.ts'', ''src/b.ts'']\<rparr>\<close>
    by code_simp
  show ?thesis
    using a dependents_are_reverse_dependencies[OF a, of "''src/c.ts''"
        "\<lparr>nodePath = ''src/c.ts'', nodeImports = [], nodeExports = [Some ''c''],
                          dependencies = [], dependents = [''src/a.ts'', ''src/b.ts'']\<rparr>"]
    by simp
qed

subsection \<open>What the matcher guarantees\<close>

lemma starIter_rel:
  assumes step: "\<And>st st'. st' \<in> set (f st) \<Longrightarrow> R st st'"
    and refl: "\<And>st. R st st"
    and trans: "\<And>a b c. R a b \<Longrightarrow> R b c \<Longrightarrow> R a c"
  shows "st' \<in> set (starIter f n st) \<Longrightarrow> R st st'"
proof (induction n arbitrary: st)
  case 0
  then show ?case by (simp add: refl)
next
  case (Suc n)
  from Suc.prems consider "st' = st"
    | x where "x \<in> set (f st)" "st' \<in> set (starIter f n x)"
    by (auto split: if_splits)
  then show ?case
  proof cases
    case 1
    then show ?thesis by (simp add: refl)
  next
    case 2
    then show ?thesis using Suc.IH step trans by blast
  qed
qed

lemma lazyIter_rel:
  assumes step: "\<And>st st'. st' \<in> set (f st) \<Longrightarrow> R st st'"
    and refl: "\<And>st. R st st"
    and trans: "\<And>a b c. R a b \<Longrightarrow> R b c \<Longrightarrow> R a c"
  shows "st' \<in> set (lazyIter f n st) \<Longrightarrow> R st st'"
proof (induction n arbitrary: st)
  case 0
  then show ?case by (simp add: refl)
next
  case (Suc n)
  from Suc.prems consider "st' = st"
    | x where "x \<in> set (f st)" "st' \<in> set (lazyIter f n x)"
    by (auto split: if_splits)
  then show ?case
  proof cases
    case 1
    then show ?thesis by (simp add: refl)
  next
    case 2
    then show ?thesis using Suc.IH step trans by blast
  qed
qed

lemma oneChar_caps: "st' \<in> set (oneChar P st) \<Longrightarrow> caps st' = caps st"
  by (auto simp: oneChar_def caps_def split: prod.splits list.splits if_splits)

lemma ms_keeps:
  "i \<notin> set (groups r) \<Longrightarrow> st' \<in> set (ms r st) \<Longrightarrow> map_of (caps st') i = map_of (caps st) i"
proof (induction r arbitrary: st st')
  case (Lit l)
  then show ?case by (auto simp: caps_def split: prod.splits if_splits)
next
  case (Seq a b)
  from Seq.prems obtain x where "x \<in> set (ms a st)" "st' \<in> set (ms b x)" by auto
  then show ?case using Seq.IH Seq.prems(1) by simp
next
  case (Star r)
  have "st' \<in> set (starIter (ms r) (length (rest st)) st)" using Star.prems by simp
  then show ?case
    by (rule starIter_rel[where R="\<lambda>a b. map_of (caps b) i = map_of (caps a) i", rotated -1])
      (use Star in auto)
next
  case (LazyStar r)
  have "st' \<in> set (lazyIter (ms r) (length (rest st)) st)" using LazyStar.prems by simp
  then show ?case
    by (rule lazyIter_rel[where R="\<lambda>a b. map_of (caps b) i = map_of (caps a) i", rotated -1])
      (use LazyStar in auto)
next
  case (Grp j r)
  from Grp.prems obtain x where x: "x \<in> set (ms r st)" and "caps st' = (j, take (length (rest st) - length (rest x)) (rest st)) # caps x"
    by (auto simp: rest_def caps_def split: prod.splits)
  then show ?case using Grp.IH[OF _ x] Grp.prems(1) by simp
qed (auto dest: oneChar_caps split: option.splits if_splits)

lemma ms_nonnull:
  "nonnull r \<Longrightarrow> st' \<in> set (ms r st) \<Longrightarrow> length (rest st') < length (rest st)"
proof (induction r arbitrary: st st')
  case (Lit l)
  obtain p s c where st: "st = (p, s, c)" by (cases st)
  from Lit.prems have l: "l \<noteq> []" "take (length l) s = l" "rest st' = drop (length l) s"
    by (auto simp: st rest_def split: if_splits)
  have "length l \<le> length s" by (metis l(2) length_take min.cobounded1)
  then show ?case using l by (cases l) (auto simp: st rest_def)
next
  case (Seq a b)
  from Seq.prems obtain x where x: "x \<in> set (ms a st)" "st' \<in> set (ms b x)" by auto
  with Seq.prems(1) Seq.IH ms_le[OF x(1)] ms_le[OF x(2)] show ?case by fastforce
next
  case (Grp i r)
  from Grp.prems obtain x where x: "x \<in> set (ms r st)" and "rest st' = rest x"
    by (auto simp: rest_def split: prod.splits)
  then show ?case using Grp.IH[OF _ x] Grp.prems(1) by simp
qed (auto dest: oneChar_less)

lemma consumed_nonnull: "nonnull r \<Longrightarrow> st' \<in> set (ms r st) \<Longrightarrow> consumed st st' \<noteq> []"
  using ms_nonnull[of r st' st] by (auto simp: consumed_def)

lemma ms_wordOnly_suffix:
  "wordOnly r \<Longrightarrow> st' \<in> set (ms r st) \<Longrightarrow> \<exists>w. rest st = w @ rest st' \<and> list_all isWord w"
proof (induction r arbitrary: st st')
  case (Lit l)
  from Lit.prems show ?case
    by (auto simp: rest_def split: prod.splits if_splits intro: exI[of _ l] append_take_drop_id[symmetric])
       (metis append_take_drop_id)
next
  case (Cls cs)
  then show ?case
    by (auto simp: oneChar_def rest_def split: prod.splits list.splits if_splits)
next
  case (Seq a b)
  from Seq.prems obtain x where x: "x \<in> set (ms a st)" "st' \<in> set (ms b x)" by auto
  with Seq.prems(1) Seq.IH obtain w1 w2 where "rest st = w1 @ rest x" "list_all isWord w1"
    "rest x = w2 @ rest st'" "list_all isWord w2" by (metis wordOnly.simps(5))
  then show ?case by (intro exI[of _ "w1 @ w2"]) simp
next
  case (Star r)
  have "st' \<in> set (starIter (ms r) (length (rest st)) st)" using Star.prems by simp
  then show ?case
  proof (rule starIter_rel[where R="\<lambda>a b. \<exists>w. rest a = w @ rest b \<and> list_all isWord w", rotated -1])
    show "\<exists>w. rest a = w @ rest c \<and> list_all isWord w"
      if "\<exists>w. rest a = w @ rest b \<and> list_all isWord w" "\<exists>w. rest b = w @ rest c \<and> list_all isWord w"
      for a b c :: mstate
    proof -
      from that obtain w1 w2 where "rest a = w1 @ rest b" "list_all isWord w1"
        "rest b = w2 @ rest c" "list_all isWord w2" by blast
      then show ?thesis by (intro exI[of _ "w1 @ w2"]) simp
    qed
  qed (use Star in auto)
next
  case (LazyStar r)
  have "st' \<in> set (lazyIter (ms r) (length (rest st)) st)" using LazyStar.prems by simp
  then show ?case
  proof (rule lazyIter_rel[where R="\<lambda>a b. \<exists>w. rest a = w @ rest b \<and> list_all isWord w", rotated -1])
    show "\<exists>w. rest a = w @ rest c \<and> list_all isWord w"
      if "\<exists>w. rest a = w @ rest b \<and> list_all isWord w" "\<exists>w. rest b = w @ rest c \<and> list_all isWord w"
      for a b c :: mstate
    proof -
      from that obtain w1 w2 where "rest a = w1 @ rest b" "list_all isWord w1"
        "rest b = w2 @ rest c" "list_all isWord w2" by blast
      then show ?thesis by (intro exI[of _ "w1 @ w2"]) simp
    qed
  qed (use LazyStar in auto)
next
  case (Grp i r)
  from Grp.prems obtain x where x: "x \<in> set (ms r st)" and "rest st' = rest x"
    by (auto simp: rest_def split: prod.splits)
  then show ?case using Grp.IH[OF _ x] Grp.prems(1) by simp
qed (auto split: option.splits if_splits)

lemma consumed_wordOnly: "wordOnly r \<Longrightarrow> st' \<in> set (ms r st) \<Longrightarrow> list_all isWord (consumed st st')"
  using ms_wordOnly_suffix[of r st' st] by (auto simp: consumed_def)

lemma ms_capT:
  assumes GT: "\<And>r st st'. G r \<Longrightarrow> st' \<in> set (ms r st) \<Longrightarrow> T (consumed st st')"
  shows "capT G I r \<Longrightarrow> st' \<in> set (ms r st) \<Longrightarrow> \<exists>i\<in>set I. \<exists>t. map_of (caps st') i = Some t \<and> T t"
proof (induction r arbitrary: st st')
  case (Seq a b)
  from Seq.prems(2) obtain x where x: "x \<in> set (ms a st)" "st' \<in> set (ms b x)" by auto
  from Seq.prems(1) consider "capT G I a" "list_all (\<lambda>i. i \<notin> set (groups b)) I" | "capT G I b" by auto
  then show ?case
  proof cases
    case 1
    from Seq.IH(1)[OF 1(1) x(1)] obtain i t where i: "i \<in> set I" "map_of (caps x) i = Some t" "T t" by blast
    then have "i \<notin> set (groups b)" using 1(2) by (simp add: list_all_iff)
    from ms_keeps[OF this x(2)] i show ?thesis by auto
  next
    case 2
    then show ?thesis using Seq.IH(2) x(2) by blast
  qed
next
  case (Alt a b)
  from Alt.prems consider "capT G I a" "st' \<in> set (ms a st)" | "capT G I b" "st' \<in> set (ms b st)"
    by auto
  then show ?case using Alt.IH by cases blast+
next
  case (Grp j r)
  from Grp.prems(2) obtain x where x: "x \<in> set (ms r st)"
    and c: "caps st' = (j, consumed st x) # caps x"
    by (auto simp: rest_def caps_def consumed_def split: prod.splits)
  show ?case
  proof (cases "j \<in> set I")
    case True
    then have "G r" using Grp.prems(1) by simp
    from GT[OF this x] True c show ?thesis by auto
  next
    case False
    then have "capT G I r" using Grp.prems(1) by simp
    from Grp.IH[OF this x] obtain i t where "i \<in> set I" "map_of (caps x) i = Some t" "T t" by blast
    then show ?thesis using False c by (intro bexI[of _ i]) auto
  qed
qed auto

lemma search_ms:
  "search r p s i = Some m \<Longrightarrow>
     \<exists>st st'. st' \<in> set (ms r st) \<and> captures m = caps st' \<and> matched m = consumed st st'"
proof (induction s arbitrary: p i)
  case Nil
  then show ?case
    by (auto simp: search.simps[of r p "[]"] caps_def consumed_def rest_def split: list.splits
             intro!: exI[of _ "(p, [], [])"])
       (metis list.set_intros(1) fst_conv snd_conv)
next
  case (Cons x xs)
  show ?case
  proof (cases "ms r (p, x # xs, [])")
    case Nil
    then have "search r (Some x) xs (Suc i) = Some m"
      using Cons.prems by (simp add: search.simps[of r p "x # xs"])
    from Cons.IH[OF this] show ?thesis .
  next
    case (Cons st sts)
    obtain p' s' c where st: "st = (p', s', c)" by (cases st)
    have "m = \<lparr>index = i, matched = take (length (x # xs) - length s') (x # xs), captures = c, after = (p', s')\<rparr>"
      using Cons.prems Cons st by (simp add: search.simps[of r p "x # xs"])
    moreover have "st \<in> set (ms r (p, x # xs, []))" using Cons by simp
    ultimately show ?thesis
      by (intro exI[of _ "(p, x # xs, [])"] exI[of _ st]) (simp add: st caps_def consumed_def rest_def)
  qed
qed

lemma search_nonnull: "nonnull r \<Longrightarrow> search r p s i = Some m \<Longrightarrow> matched m \<noteq> []"
  by (metis search_ms consumed_nonnull)

lemma search_capT:
  assumes GT: "\<And>r st st'. G r \<Longrightarrow> st' \<in> set (ms r st) \<Longrightarrow> T (consumed st st')"
    and "capT G I r" "search r p s i = Some m"
  shows "\<exists>i\<in>set I. \<exists>t. capture m i = Some t \<and> T t"
proof -
  from search_ms[OF assms(3)] obtain st st' where "st' \<in> set (ms r st)" "captures m = caps st'" by blast
  then show ?thesis using ms_capT[of G T I r st' st, OF GT assms(2)] by (simp add: capture_def)
qed

lemma search_text: "capT nonnull [k] r \<Longrightarrow> search r p s i = Some m \<Longrightarrow> \<exists>t. capture m k = Some t \<and> t \<noteq> []"
  using search_capT[of nonnull "\<lambda>t. t \<noteq> []" "[k]" r p s i m] consumed_nonnull by auto

lemma search_word: "capT wordOnly [k] r \<Longrightarrow> search r p s i = Some m \<Longrightarrow> \<exists>t. capture m k = Some t \<and> list_all isWord t"
  using search_capT[of wordOnly "list_all isWord" "[k]" r p s i m] consumed_wordOnly by auto

subsection \<open>The extraction loops end and the captures they use are defined\<close>

lemma execLoop_returns: "nonnull r \<Longrightarrow> \<exists>rs. execLoop r p s i = Some rs"
proof (induction r p s i rule: execLoop.induct)
  case (1 r p s i)
  show ?case
  proof (cases "search r p s i")
    case None
    then show ?thesis by (simp add: execLoop.simps[of r p s i])
  next
    case (Some m)
    with "1.prems" have ne: "matched m \<noteq> []" by (simp add: search_nonnull)
    from "1.IH"[OF Some ne "1.prems"] obtain rs where
      "execLoop r (fst (after m)) (snd (after m)) (index m + length (matched m)) = Some rs" by blast
    then show ?thesis using Some ne by (simp add: execLoop.simps[of r p s i])
  qed
qed

lemma execLoop_all:
  "execLoop r p s i = Some rs \<Longrightarrow> (\<And>p s i m. search r p s i = Some m \<Longrightarrow> P m) \<Longrightarrow> list_all P rs"
proof (induction r p s i arbitrary: rs rule: execLoop.induct)
  case (1 r p s i)
  show ?case
  proof (cases "search r p s i")
    case None
    then show ?thesis using "1.prems"(1) by (simp add: execLoop.simps[of r p s i])
  next
    case (Some m)
    from "1.prems"(1) Some have ne: "matched m \<noteq> []"
      by (auto simp: execLoop.simps[of r p s i] split: if_splits)
    with "1.prems"(1) Some obtain rs' where
      rs': "execLoop r (fst (after m)) (snd (after m)) (index m + length (matched m)) = Some rs'"
      and rs: "rs = m # rs'"
      by (auto simp: execLoop.simps[of r p s i])
    from "1.IH"[OF Some ne rs' "1.prems"(2)] "1.prems"(2)[OF Some] show ?thesis by (simp add: rs)
  qed
qed

lemma execAll_group1:
  assumes "nonnull r" "capT nonnull [1] r"
  shows "\<exists>rs. execAll r s = Some rs \<and> list_all (\<lambda>v. v \<noteq> None) (group1 rs)"
proof -
  from execLoop_returns[OF assms(1)] obtain rs where rs: "execAll r s = Some rs"
    unfolding execAll_def by blast
  have "list_all (\<lambda>m. capture m 1 \<noteq> None) rs"
    using rs[unfolded execAll_def]
  proof (rule execLoop_all)
    fix p s i m assume "search r p s i = Some m"
    from search_text[OF assms(2) this] show "capture m 1 \<noteq> None" by auto
  qed
  then show ?thesis using rs by (simp add: group1_def list_all_iff)
qed

lemma set_uniq: "set (uniq xs) = set xs"
  by (simp add: uniq_def)

lemma extractImports_returns:
  "\<exists>is. extractImports s = Some is \<and> list_all (\<lambda>v. v \<noteq> None) is"
proof -
  obtain es6 where 1: "execAll es6ImportRegex s = Some es6" "list_all (\<lambda>v. v \<noteq> None) (group1 es6)"
    using execAll_group1[of es6ImportRegex s] by (auto simp: es6ImportRegex_def Plus_def)
  obtain dyn where 2: "execAll dynamicImportRegex s = Some dyn" "list_all (\<lambda>v. v \<noteq> None) (group1 dyn)"
    using execAll_group1[of dynamicImportRegex s] by (auto simp: dynamicImportRegex_def Plus_def)
  obtain req where 3: "execAll requireRegex s = Some req" "list_all (\<lambda>v. v \<noteq> None) (group1 req)"
    using execAll_group1[of requireRegex s] by (auto simp: requireRegex_def Plus_def)
  obtain py where 4: "execAll pythonImportRegex s = Some py"
    using execLoop_returns[of pythonImportRegex None s 0]
    by (auto simp: execAll_def pythonImportRegex_def Plus_def)
  obtain java where 5: "execAll javaImportRegex s = Some java" "list_all (\<lambda>v. v \<noteq> None) (group1 java)"
    using execAll_group1[of javaImportRegex s] by (auto simp: javaImportRegex_def Plus_def)
  obtain php where 6: "execAll phpUseRegex s = Some php" "list_all (\<lambda>v. v \<noteq> None) (group1 php)"
    using execAll_group1[of phpUseRegex s] by (auto simp: phpUseRegex_def Plus_def)
  obtain preq where 7: "execAll phpRequireRegex s = Some preq" "list_all (\<lambda>v. v \<noteq> None) (group1 preq)"
    using execAll_group1[of phpRequireRegex s] by (auto simp: phpRequireRegex_def Plus_def)
  have "list_all (\<lambda>v. v \<noteq> None) (filter truthy (group1 py))"
    by (auto simp: list_all_iff truthy_def split: option.splits)
  then show ?thesis
    using 1 2 3 4 5 6 7 by (auto simp: extractImports_def list_all_iff set_uniq)
qed

lemma extractExports_returns: "\<exists>es. extractExports s = Some es"
proof -
  obtain named where 1: "execAll namedExportRegex s = Some named"
    using execLoop_returns[of namedExportRegex None s 0]
    by (auto simp: execAll_def namedExportRegex_def Plus_def)
  obtain re where 2: "execAll reExportRegex s = Some re"
    using execLoop_returns[of reExportRegex None s 0]
    by (auto simp: execAll_def reExportRegex_def Plus_def)
  show ?thesis using 1 2 by (simp add: extractExports_def)
qed

lemma resolveImportPaths_returns:
  "list_all (\<lambda>v. v \<noteq> None) is \<Longrightarrow> \<exists>ds. resolveImportPaths is cur allFiles = Some ds"
proof (induction "is")
  case Nil
  then show ?case by simp
next
  case (Cons v vs)
  then obtain imp where "v = Some imp" by auto
  then show ?case using Cons by auto
qed

lemma firstPass_returns: "\<exists>res. firstPass fs allFiles nodeMap = Some res"
proof (induction fs arbitrary: nodeMap)
  case Nil
  then show ?case by simp
next
  case (Cons f fs)
  obtain imps where i: "extractImports (fileContent f) = Some imps" "list_all (\<lambda>v. v \<noteq> None) imps"
    using extractImports_returns by blast
  obtain exps where e: "extractExports (fileContent f) = Some exps"
    using extractExports_returns by blast
  obtain deps where d: "resolveImportPaths imps (filePath f) allFiles = Some deps"
    using resolveImportPaths_returns[OF i(2)] by blast
  show ?case using i(1) e d Cons.IH by simp
qed

subsection \<open>The depth-first search ends\<close>

lemma deps_in_allPaths:
  "map_of nodeMap p = Some node \<Longrightarrow> set (dependencies node) \<subseteq> set (allPaths nodeMap)"
  by (force simp: allPaths_def dest: map_of_SomeD)

lemma card_unvisited_less:
  assumes "p \<in> set U" "p \<notin> V" "card (set U - V) \<le> Suc n"
  shows "card (set U - insert p V) \<le> n"
proof -
  have "set U - insert p V = (set U - V) - {p}" by auto
  moreover have "p \<in> set U - V" using assms by simp
  ultimately have "card (set U - insert p V) = card (set U - V) - 1" by simp
  then show ?thesis using assms(3) by simp
qed

lemma card_unvisited_mono:
  "V \<subseteq> V' \<Longrightarrow> card (set U - V') \<le> card (set U - V)"
  by (intro card_mono) auto

lemma dfs_returns:
  "p \<in> set (allPaths nodeMap) \<Longrightarrow> p \<notin> set (visited st)
     \<Longrightarrow> card (set (allPaths nodeMap) - set (visited st)) \<le> n
     \<Longrightarrow> \<exists>st'. dfs n nodeMap p cp st = Some st' \<and> set (visited st) \<subseteq> set (visited st')"
  and dfsLoop_returns:
  "set deps \<subseteq> set (allPaths nodeMap)
     \<Longrightarrow> card (set (allPaths nodeMap) - set (visited st)) \<le> n
     \<Longrightarrow> \<exists>st'. dfsLoop n nodeMap deps cp st = Some st' \<and> set (visited st) \<subseteq> set (visited st')"
proof (induction n nodeMap p cp st and n nodeMap deps cp st rule: dfs_dfsLoop.induct)
  case (1 nodeMap p currentPath st)
  then have "p \<in> set (allPaths nodeMap) - set (visited st)" by simp
  then have "card (set (allPaths nodeMap) - set (visited st)) > 0"
    by (metis card_gt_0_iff empty_iff finite_Diff finite_set)
  then show ?case using "1.prems"(3) by simp
next
  case (2 n nodeMap p currentPath st)
  define st1 where "st1 = st\<lparr>visited := p # visited st, recursionStack := p # recursionStack st\<rparr>"
  have c1: "card (set (allPaths nodeMap) - set (visited st1)) \<le> n"
    using card_unvisited_less[OF "2.prems"] by (simp add: st1_def)
  show ?case
  proof (cases "map_of nodeMap p")
    case None
    then show ?thesis by (auto simp: Let_def)
  next
    case (Some node)
    from "2.IH"[OF st1_def refl Some deps_in_allPaths[OF Some] c1]
    obtain st2 where "dfsLoop n nodeMap (dependencies node) (currentPath @ [p]) st1 = Some st2"
      "set (visited st1) \<subseteq> set (visited st2)" by blast
    then show ?thesis using Some by (auto simp: Let_def st1_def)
  qed
next
  case (3 n nodeMap currentPath st)
  then show ?case by simp
next
  case (4 n nodeMap dep deps currentPath st)
  show ?case
  proof (cases "dep \<in> set (visited st)")
    case False
    from "4.IH"(1)[OF False _ False "4.prems"(2)] "4.prems"(1)
    obtain st' where st': "dfs n nodeMap dep currentPath st = Some st'"
      "set (visited st) \<subseteq> set (visited st')" by auto
    have "card (set (allPaths nodeMap) - set (visited st')) \<le> n"
      using card_unvisited_mono[OF st'(2)] "4.prems"(2) by (meson le_trans)
    from "4.IH"(2)[OF False st'(1) _ this] "4.prems"(1)
    obtain st'' where "dfsLoop n nodeMap deps currentPath st' = Some st''"
      "set (visited st') \<subseteq> set (visited st'')" by auto
    then show ?thesis using False st' by auto
  next
    case True
    show ?thesis
    proof (cases "dep \<in> set (recursionStack st)")
      case inStack: True
      from "4.IH"(3) True inStack "4.prems" show ?thesis by auto
    next
      case notInStack: False
      from "4.IH"(4) True notInStack "4.prems" show ?thesis by auto
    qed
  qed
qed

lemma dfsRoots_returns:
  "set ps \<subseteq> set (allPaths nodeMap)
     \<Longrightarrow> card (set (allPaths nodeMap) - set (visited st)) \<le> n
     \<Longrightarrow> \<exists>st'. dfsRoots n nodeMap ps st = Some st'"
proof (induction ps arbitrary: st)
  case Nil
  then show ?case by simp
next
  case (Cons p ps)
  show ?case
  proof (cases "p \<in> set (visited st)")
    case True
    then show ?thesis using Cons by simp
  next
    case False
    from dfs_returns[OF _ False Cons.prems(2), of "[]"] Cons.prems(1)
    obtain st' where st': "dfs n nodeMap p [] st = Some st'" "set (visited st) \<subseteq> set (visited st')"
      by auto
    have "card (set (allPaths nodeMap) - set (visited st')) \<le> n"
      using card_unvisited_mono[OF st'(2)] Cons.prems(2) by (meson le_trans)
    from Cons.IH[OF _ this] Cons.prems(1) show ?thesis using False st' by simp
  qed
qed

lemma detectCircularDependencies_returns: "\<exists>circ. detectCircularDependencies nodeMap = Some circ"
proof -
  have "card (set (allPaths nodeMap)) \<le> length (allPaths nodeMap)" by (rule card_length)
  then have "card (set (allPaths nodeMap) - set (visited \<lparr>circular = [], visited = [], recursionStack = []\<rparr>))
      \<le> Suc (length (allPaths nodeMap))" by simp
  moreover have "set (map fst nodeMap) \<subseteq> set (allPaths nodeMap)" by (auto simp: allPaths_def)
  ultimately obtain st' where
    "dfsRoots (Suc (length (allPaths nodeMap))) nodeMap (map fst nodeMap)
       \<lparr>circular = [], visited = [], recursionStack = []\<rparr> = Some st'"
    using dfsRoots_returns by blast
  then show ?thesis by (simp add: detectCircularDependencies_def)
qed

lemma analyzeDependencies_returns: "\<exists>g. analyzeDependencies files = Some g"
proof -
  obtain nodeMap where "firstPass files files [] = Some nodeMap" using firstPass_returns by blast
  moreover obtain circ where "detectCircularDependencies (secondPass nodeMap) = Some circ"
    using detectCircularDependencies_returns by blast
  ultimately show ?thesis by (simp add: analyzeDependencies_def Let_def)
qed

subsection \<open>The quality analysis returns\<close>

lemma splitJS_nonempty: "splitJS sep s \<noteq> []"
  by (induction sep s rule: splitJS.induct) (auto split: list.splits)

lemma those_returns:
  "(\<And>x. x \<in> set xs \<Longrightarrow> \<exists>y. h x = Some y) \<Longrightarrow> \<exists>ys. those (map h xs) = Some ys"
proof (induction xs)
  case Nil
  then show ?case by simp
next
  case (Cons x xs)
  then obtain y ys where "h x = Some y" "those (map h xs) = Some ys" by (metis list.set_intros)
  then show ?case by simp
qed

lemma firstMatch_text:
  "capT nonnull [k] r \<Longrightarrow> firstMatch r s = Some m \<Longrightarrow> \<exists>t. capture m k = Some t \<and> t \<noteq> []"
  unfolding firstMatch_def by (rule search_text)

lemma es6Names_returns: "\<exists>ds. es6Names (firstMatch namedImportRegex line) lineNo = Some ds"
proof (cases "firstMatch namedImportRegex line")
  case None
  then show ?thesis by (simp add: es6Names_def)
next
  case (Some m)
  have "capT nonnull [1, 2] namedImportRegex" by (simp add: namedImportRegex_def Plus_def)
  from search_capT[of nonnull "\<lambda>t. t \<noteq> []" "[1, 2]", OF consumed_nonnull this Some[unfolded firstMatch_def]]
  have c: "(\<exists>t. capture m 1 = Some t \<and> t \<noteq> []) \<or> (\<exists>t. capture m 2 = Some t \<and> t \<noteq> [])" by auto
  show ?thesis
  proof (cases "\<exists>g. capture m 1 = Some g \<and> g \<noteq> []")
    case True
    then obtain g where g: "capture m 1 = Some g" "g \<noteq> []" by blast
    have "\<exists>ds. those (map (map_option
             (\<lambda>n. \<lparr>declName = Some (trim (replaceFirst asRegex [] n)), declLine = lineNo\<rparr>))
           (map (\<lambda>n. Some (trim n)) (splitJS '','' g))) = Some ds"
      unfolding map_map by (rule those_returns) simp
    then show ?thesis using Some g by (simp add: es6Names_def)
  next
    case False
    with c obtain t where "capture m 2 = Some t" by auto
    then show ?thesis using Some False by (auto simp: es6Names_def split: option.splits)
  qed
qed

lemma pythonNames_returns: "\<exists>ds. pythonNames (firstMatch pythonImportLineRegex line) lineNo = Some ds"
proof (cases "firstMatch pythonImportLineRegex line")
  case None
  then show ?thesis by (simp add: pythonNames_def)
next
  case (Some m)
  have "capT nonnull [1] pythonImportLineRegex" by (simp add: pythonImportLineRegex_def Plus_def)
  from firstMatch_text[OF this Some] obtain g where g: "capture m 1 = Some g" by blast
  have "\<exists>ys. those (map (\<lambda>name. case splitJS '' as '' name of [] \<Rightarrow> None
              | first # _ \<Rightarrow> Some \<lparr>declName = Some (trim first), declLine = lineNo\<rparr>)
            (map trim (splitJS '','' g))) = Some ys"
    by (rule those_returns) (use splitJS_nonempty in \<open>auto split: list.splits\<close>)
  then show ?thesis using Some g by (simp add: pythonNames_def)
qed

lemma dottedName_returns:
  "capT nonnull [1] r \<Longrightarrow> \<exists>ds. dottedName (firstMatch r line) sep lineNo = Some ds"
  by (cases "firstMatch r line") (auto simp: dottedName_def dest: firstMatch_text)

lemma lineImports_returns: "\<exists>ds. lineImports line lineNo = Some ds"
proof -
  obtain a where a: "es6Names (firstMatch namedImportRegex line) lineNo = Some a"
    using es6Names_returns by blast
  obtain b where b: "pythonNames (firstMatch pythonImportLineRegex line) lineNo = Some b"
    using pythonNames_returns by blast
  have "capT nonnull [1] javaImportLineRegex" by (simp add: javaImportLineRegex_def Plus_def)
  then obtain c where c: "dottedName (firstMatch javaImportLineRegex line) ''.'' lineNo = Some c"
    using dottedName_returns by blast
  have "capT nonnull [1] phpUseLineRegex" by (simp add: phpUseLineRegex_def Plus_def)
  then obtain d where d: "dottedName (firstMatch phpUseLineRegex line) [CHR 0x5C] lineNo = Some d"
    using dottedName_returns by blast
  show ?thesis using a b c d by (simp add: lineImports_def)
qed

lemma forEachLine_returns:
  "(\<And>line lineNo. \<exists>ds. f line lineNo = Some ds) \<Longrightarrow> \<exists>ds. forEachLine f ls i = Some ds"
proof (induction ls arbitrary: i)
  case Nil
  then show ?case by simp
next
  case (Cons l ls)
  obtain xs where "f l (i + 1) = Some xs" using Cons.prems by blast
  moreover obtain ys where "forEachLine f ls (i + 1) = Some ys" using Cons by blast
  ultimately show ?case by simp
qed

lemma extractImportsCQ_returns: "\<exists>ds. extractImportsCQ s = Some ds"
  unfolding extractImportsCQ_def by (rule forEachLine_returns) (rule lineImports_returns)

lemma extractVariables_word:
  assumes "v \<in> set (extractVariables s)"
  shows "\<exists>t. declName v = Some t \<and> list_all isWord t"
proof -
  from assms obtain line m where m: "firstMatch varRegex line = Some m" and v: "declName v = capture m 1"
    by (auto simp: extractVariables_def split: option.splits) metis
  have "capT wordOnly [1] varRegex" by (simp add: varRegex_def declKeyword_def Plus_def)
  from search_word[OF this m[unfolded firstMatch_def]] v show ?thesis by simp
qed

lemma deadVariables_returns:
  "(\<And>v. v \<in> set vs \<Longrightarrow> \<exists>t. declName v = Some t \<and> list_all isWord t)
     \<Longrightarrow> \<exists>ds. deadVariables file s vs = Some ds"
proof (induction vs)
  case Nil
  then show ?case by simp
next
  case (Cons v vs)
  obtain t where "declName v = Some t" "list_all isWord t" using Cons.prems by auto
  then obtain c where "countUsages s (declName v) = Some c" by (simp add: countUsages_def template_def)
  moreover obtain ds where "deadVariables file s vs = Some ds" using Cons by auto
  ultimately show ?case by simp
qed

lemma fileDeadCode_returns: "\<exists>ds. fileDeadCode f g = Some ds"
proof -
  obtain imps where "extractImportsCQ (fileContent f) = Some imps"
    using extractImportsCQ_returns by blast
  moreover obtain vs where
    "deadVariables (filePath f) (fileContent f) (extractVariables (fileContent f)) = Some vs"
    using deadVariables_returns extractVariables_word by blast
  ultimately show ?thesis by (simp add: fileDeadCode_def Let_def)
qed

lemma findDeadCode_returns: "\<exists>ds. findDeadCode fs g = Some ds"
proof (induction fs)
  case Nil
  then show ?case by simp
next
  case (Cons f fs)
  obtain xs where "fileDeadCode f g = Some xs" using fileDeadCode_returns by blast
  then show ?case using Cons by auto
qed

lemma analyzeCodeQuality_returns: "\<exists>r. analyzeCodeQuality files g = Some r"
  using findDeadCode_returns[of files g] by (auto simp: analyzeCodeQuality_def)

subsection \<open>Files with empty content\<close>

lemma extractImports_empty: "extractImports [] = Some []"
  by code_simp

lemma extractExports_empty: "extractExports [] = Some []"
  by code_simp

lemma keys_mapSet: "fst ` set (mapSet k v m) = insert k (fst ` set m)"
  by (force simp: mapSet_def mapHas_def map_of_eq_None_iff split: if_splits)

lemma noDeps_mapSet: "noDeps m \<Longrightarrow> dependencies v = [] \<Longrightarrow> noDeps (mapSet k v m)"
  by (auto simp: noDeps_def mapSet_def list_all_iff split: if_splits)

lemma firstPass_empty:
  "firstPass fs allFiles nodeMap = Some res \<Longrightarrow> list_all (\<lambda>f. fileContent f = []) fs
     \<Longrightarrow> noDeps nodeMap
     \<Longrightarrow> noDeps res \<and> fst ` set res = fst ` set nodeMap \<union> filePath ` set fs"
proof (induction fs arbitrary: nodeMap)
  case Nil
  then show ?case by simp
next
  case (Cons f fs)
  let ?node = "\<lparr>nodePath = filePath f, nodeImports = [], nodeExports = [],
                 dependencies = [], dependents = []\<rparr>"
  from Cons.prems(2) have c: "fileContent f = []" and r: "list_all (\<lambda>f. fileContent f = []) fs"
    by simp_all
  from Cons.prems(1) have "firstPass fs allFiles (mapSet (filePath f) ?node nodeMap) = Some res"
    by (simp add: c extractImports_empty extractExports_empty)
  from Cons.IH[OF this r noDeps_mapSet[OF Cons.prems(3)]] show ?case
    by (auto simp: keys_mapSet)
qed

lemma secondPass_noDeps: "noDeps nodeMap \<Longrightarrow> secondPass nodeMap = nodeMap"
proof -
  assume n: "noDeps nodeMap"
  have "pushed k nodeMap = []" for k
    using n by (auto simp: pushed_def noDeps_def list_all_iff)
  then show ?thesis by (simp add: secondPass_eq withPushed_def)
qed

lemma dfs_noDeps:
  "noDeps nodeMap \<Longrightarrow> dfs n nodeMap p cp st = Some st' \<Longrightarrow> circular st' = circular st"
proof (cases n)
  case 0
  then show "dfs n nodeMap p cp st = Some st' \<Longrightarrow> circular st' = circular st" by simp
next
  case (Suc k)
  assume n: "noDeps nodeMap" and d: "dfs n nodeMap p cp st = Some st'"
  show "circular st' = circular st"
  proof (cases "map_of nodeMap p")
    case None
    then show ?thesis using d Suc by (auto simp: Let_def)
  next
    case (Some node)
    then have "dependencies node = []"
      using n by (auto simp: noDeps_def list_all_iff dest!: map_of_SomeD)
    then show ?thesis using d Suc Some by (auto simp: Let_def)
  qed
qed

lemma dfsRoots_noDeps:
  "noDeps nodeMap \<Longrightarrow> dfsRoots n nodeMap ps st = Some st' \<Longrightarrow> circular st' = circular st"
proof (induction ps arbitrary: st)
  case Nil
  then show ?case by simp
next
  case (Cons p ps)
  show ?case
  proof (cases "p \<in> set (visited st)")
    case True
    then show ?thesis using Cons by simp
  next
    case False
    with Cons.prems(2) obtain st1 where st1: "dfs n nodeMap p [] st = Some st1"
      "dfsRoots n nodeMap ps st1 = Some st'" by (auto split: option.splits)
    from Cons.IH[OF Cons.prems(1) st1(2)] dfs_noDeps[OF Cons.prems(1) st1(1)] show ?thesis by simp
  qed
qed

lemma detectCircularDependencies_noDeps:
  "noDeps nodeMap \<Longrightarrow> detectCircularDependencies nodeMap = Some []"
proof -
  assume n: "noDeps nodeMap"
  obtain circ where c: "detectCircularDependencies nodeMap = Some circ"
    using detectCircularDependencies_returns by blast
  then obtain st' where "dfsRoots (Suc (length (allPaths nodeMap))) nodeMap (map fst nodeMap)
       \<lparr>circular = [], visited = [], recursionStack = []\<rparr> = Some st'" "circ = circular st'"
    by (auto simp: detectCircularDependencies_def)
  with dfsRoots_noDeps[OF n this(1)] c show ?thesis by simp
qed

lemma detectMissing_noDeps: "noDeps nodeMap \<Longrightarrow> detectMissing nodeMap = []"
  by (auto simp: detectMissing_def noDeps_def list_all_iff)

lemma detectUnused_keyed:
  assumes "keyed nodeMap"
  shows "set (detectUnused nodeMap) = {p \<in> fst ` set nodeMap. \<not> isEntryPoint p}"
proof (intro set_eqI iffI)
  fix p assume "p \<in> set (detectUnused nodeMap)"
  then obtain n where "(p, n) \<in> set nodeMap" "\<not> isEntryPoint p"
    by (auto simp: detectUnused_def)
  then show "p \<in> {p \<in> fst ` set nodeMap. \<not> isEntryPoint p}"
    by (simp add: image_iff) (metis fst_conv)
next
  fix p assume "p \<in> {p \<in> fst ` set nodeMap. \<not> isEntryPoint p}"
  then obtain n where n: "(p, n) \<in> set nodeMap" and e: "\<not> isEntryPoint p" by auto
  then have "dependents n = []" using assms by (auto simp: keyed_def list_all_iff)
  with n e have "(p, n) \<in> set (filter (\<lambda>(p, node). dependents node = [] \<and> \<not> isEntryPoint p) nodeMap)"
    by simp
  then show "p \<in> set (detectUnused nodeMap)"
    unfolding detectUnused_def set_map by (rule rev_image_eqI) simp
qed

lemma analyzeDependencies_empty_contents:
  assumes "list_all (\<lambda>f. fileContent f = []) files"
  shows "\<exists>g. analyzeDependencies files = Some g \<and> circularDependencies g = []
           \<and> missingDependencies g = []
           \<and> set (unusedFiles g) = {p \<in> filePath ` set files. \<not> isEntryPoint p}"
proof -
  obtain nodeMap where fp: "firstPass files files [] = Some nodeMap"
    using firstPass_returns by blast
  from firstPass_empty[OF fp assms] have n: "noDeps nodeMap" and k: "fst ` set nodeMap = filePath ` set files"
    by (simp_all add: noDeps_def)
  have kd: "keyed nodeMap" using firstPass_keyed[OF fp] by (simp add: keyed_def)
  have "analyzeDependencies files
      = Some \<lparr>nodes = nodeMap, circularDependencies = [],
               missingDependencies = detectMissing nodeMap, unusedFiles = detectUnused nodeMap\<rparr>"
    unfolding analyzeDependencies_def
    by (simp only: fp secondPass_noDeps[OF n] detectCircularDependencies_noDeps[OF n] Let_def
        bind.bind_lunit)
  moreover have "detectMissing nodeMap = []" by (rule detectMissing_noDeps[OF n])
  moreover have "set (detectUnused nodeMap) = {p \<in> filePath ` set files. \<not> isEntryPoint p}"
    unfolding detectUnused_keyed[OF kd] k ..
  ultimately show ?thesis by simp
qed

lemma splitLines_empty: "splitLines [] = [[]]"
  by (simp add: splitLines_def)

lemma fileBlocks_empty: "fileContent f = [] \<Longrightarrow> fileBlocks f = []"
  by (simp add: fileBlocks_def splitLines_empty minLines_def)

lemma extractImportsCQ_empty: "extractImportsCQ [] = Some []"
  by code_simp

lemma extractFunctions_empty: "extractFunctions [] = []"
  by code_simp

lemma extractVariables_empty: "extractVariables [] = []"
  by code_simp

lemma fileDeadCode_empty: "fileContent f = [] \<Longrightarrow> fileDeadCode f g = Some []"
  by (simp add: fileDeadCode_def extractImportsCQ_empty extractFunctions_empty extractVariables_empty
      deadImports_def deadFunctions_def)

lemma findDeadCode_empty:
  "list_all (\<lambda>f. fileContent f = []) fs \<Longrightarrow> findDeadCode fs g = Some []"
  by (induction fs) (simp_all add: fileDeadCode_empty)

lemma tests_empty:
  "\<not> test ifTrueRegex []" "\<not> test ifFalseRegex []" "\<not> test pyIfTrueRegex []" "\<not> test passRegex []"
  "\<not> test printlnRegex []" "\<not> test varDumpRegex []" "\<not> test doubleNegationRegex []"
  "\<not> test consoleRegex []"
  by code_simp+

lemma lineRedundant_empty: "lineRedundant f [] i = []"
  by (simp add: lineRedundant_def finding_def tests_empty)

lemma findRedundantCode_empty:
  "list_all (\<lambda>f. fileContent f = []) fs \<Longrightarrow> findRedundantCode fs = []"
  by (auto simp: findRedundantCode_def list_all_iff splitLines_empty enumerate_eq_zip lineRedundant_empty)

lemma analyzeComplexity_empty:
  "list_all (\<lambda>f. fileContent f = []) fs \<Longrightarrow> analyzeComplexity fs = []"
  by (auto simp: analyzeComplexity_def list_all_iff extractFunctions_empty)

lemma findDuplicateCode_empty:
  "list_all (\<lambda>f. fileContent f = []) fs \<Longrightarrow> findDuplicateCode fs = []"
proof -
  assume "list_all (\<lambda>f. fileContent f = []) fs"
  then have c: "concat (map fileBlocks fs) = []" by (simp add: list_all_iff fileBlocks_empty)
  show ?thesis unfolding findDuplicateCode_def c by simp
qed

lemma analyzeCodeQuality_empty_contents:
  "list_all (\<lambda>f. fileContent f = []) fs \<Longrightarrow>
     analyzeCodeQuality fs g = Some \<lparr>duplicates = [], deadCode = [], redundantCode = [], complexityIssues = []\<rparr>"
  by (simp add: analyzeCodeQuality_def findDeadCode_empty findRedundantCode_empty
      analyzeComplexity_empty findDuplicateCode_empty)

lemma compareBlocks_one_file: "list_all (\<lambda>b. blockFile b = p) bs \<Longrightarrow> compareBlocks bs = []"
  by (induction bs) (auto simp: list_all_iff Let_def)

lemma findDuplicateCode_single: "findDuplicateCode [f] = []"
proof -
  have "list_all (\<lambda>b. blockFile b = filePath f) (fileBlocks f)"
    by (auto simp: fileBlocks_def list_all_iff Let_def split: if_splits)
  then show ?thesis by (simp add: findDuplicateCode_def compareBlocks_one_file)
qed

text \<open>
  Claim C9, as amended. Both analyses return for every file set: no call on
  \<open>undefined\<close> is reached and every loop ends. The empty file set gives an empty graph
  and an empty report. Files with empty content give no cycle, no missing dependency
  and no quality finding, and those of them whose path is no entry point are the unused
  files. A single file gives no duplicate finding.
\<close>

theorem analyses_return:
  "(\<exists>g. analyzeDependencies files = Some g)
   \<and> (\<exists>r. analyzeCodeQuality files graph = Some r)
   \<and> analyzeDependencies [] = Some \<lparr>nodes = [], circularDependencies = [],
                                      missingDependencies = [], unusedFiles = []\<rparr>
   \<and> analyzeCodeQuality [] graph = Some \<lparr>duplicates = [], deadCode = [], redundantCode = [],
                                           complexityIssues = []\<rparr>
   \<and> (list_all (\<lambda>f. fileContent f = []) files \<longrightarrow>
        (\<exists>g. analyzeDependencies files = Some g \<and> circularDependencies g = []
           \<and> missingDependencies g = []
           \<and> set (unusedFiles g) = {p \<in> filePath ` set files. \<not> isEntryPoint p})
        \<and> analyzeCodeQuality files graph
            = Some \<lparr>duplicates = [], deadCode = [], redundantCode = [], complexityIssues = []\<rparr>)
   \<and> findDuplicateCode [f] = []"
proof -
  have "analyzeDependencies [] = Some \<lparr>nodes = [], circularDependencies = [],
                                      missingDependencies = [], unusedFiles = []\<rparr>"
    by code_simp
  moreover have "analyzeCodeQuality [] graph = Some \<lparr>duplicates = [], deadCode = [], redundantCode = [],
                                           complexityIssues = []\<rparr>"
    using analyzeCodeQuality_empty_contents[of "[]" graph] by simp
  ultimately show ?thesis
    using analyzeDependencies_returns[of files] analyzeCodeQuality_returns[of files graph]
      analyzeDependencies_empty_contents[of files] analyzeCodeQuality_empty_contents[of files graph]
      findDuplicateCode_single[of f]
    by (intro conjI impI) assumption+
qed

theorem analyses_return_witness:
  "list_all (\<lambda>f. fileContent f = []) emptyFiles
   \<and> (\<exists>g. analyzeDependencies emptyFiles = Some g \<and> circularDependencies g = []
           \<and> missingDependencies g = []
           \<and> set (unusedFiles g) = {p \<in> filePath ` set emptyFiles. \<not> isEntryPoint p})
   \<and> analyzeCodeQuality emptyFiles \<lparr>nodes = [], circularDependencies = [],
                                      missingDependencies = [], unusedFiles = []\<rparr>
       = Some \<lparr>duplicates = [], deadCode = [], redundantCode = [], complexityIssues = []\<rparr>
   \<and> map_option unusedFiles (analyzeDependencies emptyFiles) = Some [''c.ts'']"
proof -
  have e: "list_all (\<lambda>f. fileContent f = []) emptyFiles" by (simp add: emptyFiles_def)
  have u: "map_option unusedFiles (analyzeDependencies emptyFiles) = Some [''c.ts'']" by code_simp
  show ?thesis
    using e u analyses_return[of emptyFiles "\<lparr>nodes = [], circularDependencies = [],
                                      missingDependencies = [], unusedFiles = []\<rparr>"]
    by blast
qed

text \<open>
  The claim as it was stated fails on a single file with empty content, which is reported
  unused; a single file can also have a cycle and quality findings.
\<close>

theorem single_empty_file_is_unused:
  "map_option unusedFiles
     (analyzeDependencies [\<lparr>filePath = ''c.ts'', fileContent = [], fileLanguage = ''ts''\<rparr>])
   = Some [''c.ts'']"
  by code_simp

lemma single_file_self_cycle:
  \<open>map_option circularDependencies
     (analyzeDependencies [\<lparr>filePath = ''src/a.ts'', fileContent = ''import "./a"'', fileLanguage = ''ts''\<rparr>])
   = Some [[''src/a.ts'', ''src/a.ts'']]\<close>
  by code_simp

lemma single_file_findings:
  \<open>map_option (map message \<circ> redundantCode)
     (analyzeCodeQuality [\<lparr>filePath = ''a.js'', fileContent = ''console.log(1)'', fileLanguage = ''js''\<rparr>]
        \<lparr>nodes = [], circularDependencies = [], missingDependencies = [], unusedFiles = []\<rparr>)
   = Some [''Console statement found'']\<close>
  by code_simp

subsection \<open>No dependency is ever reported missing\<close>

text \<open>
  Every dependency that \<open>resolveImportPaths\<close> returns is the path of a file, hence a
  key of the node map: the list of missing dependencies is empty for every file set.
\<close>

lemma find_SomeD: "List.find P xs = Some x \<Longrightarrow> P x"
  by (auto simp: find_Some_iff)

lemma resolveImport_in_files:
  assumes "p \<in> set (resolveImport imp cur allFiles)"
  shows "p \<in> filePath ` set allFiles"
proof -
  from assms obtain cands where "List.find (\<lambda>p. list_ex (\<lambda>f. filePath f = p) allFiles) cands = Some p"
    by (auto simp: resolveImport_def Let_def split: if_splits option.splits)
  then have "list_ex (\<lambda>f. filePath f = p) allFiles" by (rule find_SomeD)
  then show ?thesis by (auto simp: list_ex_iff)
qed

lemma resolveImportPaths_in_files:
  "resolveImportPaths is cur allFiles = Some ds \<Longrightarrow> set ds \<subseteq> filePath ` set allFiles"
proof (induction "is" arbitrary: ds)
  case Nil
  then show ?case by simp
next
  case (Cons v vs)
  then obtain imp ds' where "v = Some imp" "resolveImportPaths vs cur allFiles = Some ds'"
    "ds = resolveImport imp cur allFiles @ ds'"
    by (cases v) auto
  then show ?case using Cons.IH resolveImport_in_files by fastforce
qed

lemma depsIn_mapSet: "depsIn S m \<Longrightarrow> set (dependencies v) \<subseteq> S \<Longrightarrow> depsIn S (mapSet k v m)"
  by (fastforce simp: depsIn_def mapSet_def list_all_iff split: if_splits)

lemma firstPass_deps:
  "firstPass fs allFiles nodeMap = Some res \<Longrightarrow> depsIn (filePath ` set allFiles) nodeMap
     \<Longrightarrow> depsIn (filePath ` set allFiles) res \<and> fst ` set res = fst ` set nodeMap \<union> filePath ` set fs"
proof (induction fs arbitrary: nodeMap)
  case Nil
  then show ?case by simp
next
  case (Cons f fs)
  from Cons.prems(1) obtain imps exps deps where
    d: "resolveImportPaths imps (filePath f) allFiles = Some deps"
    and r: "firstPass fs allFiles (mapSet (filePath f)
          \<lparr>nodePath = filePath f, nodeImports = imps, nodeExports = exps,
           dependencies = deps, dependents = []\<rparr> nodeMap) = Some res"
    by (auto split: Option.bind_splits)
  have "depsIn (filePath ` set allFiles) (mapSet (filePath f)
          \<lparr>nodePath = filePath f, nodeImports = imps, nodeExports = exps,
           dependencies = deps, dependents = []\<rparr> nodeMap)"
    using depsIn_mapSet[OF Cons.prems(2)] resolveImportPaths_in_files[OF d] by simp
  from Cons.IH[OF r this] show ?case by (auto simp: keys_mapSet)
qed

lemma detectMissing_secondPass:
  assumes "depsIn (fst ` set nodeMap) nodeMap"
  shows "detectMissing (secondPass nodeMap) = []"
proof -
  have k: "fst ` set (secondPass nodeMap) = fst ` set nodeMap"
    by (force simp: secondPass_eq withPushed_def)
  have "mapHas dep (secondPass nodeMap)"
    if "(p, n) \<in> set (secondPass nodeMap)" "dep \<in> set (dependencies n)" for p n dep
  proof -
    from that(1) obtain n0 where "(p, n0) \<in> set nodeMap" "dependencies n = dependencies n0"
      by (auto simp: secondPass_eq withPushed_def)
    with that(2) assms have "dep \<in> fst ` set nodeMap" by (auto simp: depsIn_def list_all_iff)
    then show ?thesis by (simp add: mapHas_def map_of_eq_None_iff k)
  qed
  then show ?thesis by (auto simp: detectMissing_def)
qed

lemma missing_always_empty:
  assumes "analyzeDependencies files = Some g"
  shows "missingDependencies g = []"
proof -
  from assms obtain nodeMap where fp: "firstPass files files [] = Some nodeMap"
    and g: "missingDependencies g = detectMissing (secondPass nodeMap)"
    by (rule analyzeDependencies_Some) simp
  from firstPass_deps[OF fp] have "depsIn (fst ` set nodeMap) nodeMap" by (simp add: depsIn_def)
  then show ?thesis using g detectMissing_secondPass by simp
qed

end
